theory Spec2Isabelle
  imports Main "HOL-Library.Word"
begin

section \<open>Python values shared by the modules\<close>

text \<open>
  Bytes objects are lists of octets, Python \<open>str\<close> values are \<open>string\<close>s (one \<open>char\<close> per
  code point, which restricts the model to code points below 256), and Python's unbounded
  \<open>int\<close> is \<open>int\<close>; byte counts, which the code only ever adds lengths to, are \<open>nat\<close>.
\<close>

type_synonym byte = "8 word"
type_synonym bytes = "byte list"

text \<open>
  The exceptions the three modules raise or handle. \<open>OSError\<close> carries the subclass the
  handlers of \<open>imaging.py\<close> distinguish, its \<open>strerror\<close> and its \<open>str()\<close>.
  \<open>KeyboardInterrupt\<close> is the one value that is not an instance of \<open>Exception\<close>.
\<close>

datatype oskind = PermissionError | FileNotFoundError | OtherOSError

datatype oserror = OSErr oskind string string

fun kind :: "oserror \<Rightarrow> oskind" where
  "kind (OSErr k _ _) = k"

fun strerror :: "oserror \<Rightarrow> string" where
  "strerror (OSErr _ s _) = s"

fun str_oserror :: "oserror \<Rightarrow> string" where
  "str_oserror (OSErr _ _ t) = t"

datatype pyexn =
    FlashError string
  | VerificationError string
  | ValueError string
  | UnmountError string "string list"
  | OSError oserror
  | KeyboardInterrupt
  | OtherException string

fun is_Exception :: "pyexn \<Rightarrow> bool" where
  "is_Exception KeyboardInterrupt = False"
| "is_Exception _ = True"

text \<open>\<open>str(n)\<close> of a non-negative integer, as an f-string renders it.\<close>

definition digit :: "nat \<Rightarrow> char" where
  "digit d = ''0123456789'' ! d"

fun str_nat :: "nat \<Rightarrow> string" where
  "str_nat n = (if n < 10 then [digit n] else str_nat (n div 10) @ [digit (n mod 10)])"

declare str_nat.simps [simp del]

section \<open>imaging.py: streams, devices, image sources\<close>

text \<open>
  An opened binary stream is the name of the file behind it and the bytes it will deliver.
  \<open>read(n)\<close> returns the next \<open>n\<close> bytes (fewer at the end of the stream, none after it);
  a negative size reads everything that is left, \<open>read(0)\<close> returns \<open>b''\<close>. Reads of an
  opened stream do not fail in this model.
\<close>

datatype loc = Plain string | InTemp nat string

record stream =
  fname :: loc
  content :: bytes

definition stream_read :: "int \<Rightarrow> bytes \<Rightarrow> bytes \<times> bytes" where
  "stream_read n rest =
     (if n < 0 then (rest, []) else (take (nat n) rest, drop (nat n) rest))"

text \<open>
  The device side of the operating system: what \<open>os.open\<close> finds at a path, the log of
  the \<open>os.open\<close> calls made, and the log of the reads made (path, offset, size asked for). A block device has a fixed
  capacity: a write that starts at or past its end fails with ENOSPC, one that crosses the
  end is cut short (the code ignores the count \<open>write\<close> returns). \<open>flush\<close> and \<open>os.fsync\<close> change nothing here; the code
  swallows the \<open>OSError\<close> of \<open>os.fsync\<close>.
\<close>

datatype open_mode = O_RDWR_SYNC | O_RDONLY

datatype dev_node = Dev bytes | Dev_denied | Dev_fails string

record devices =
  nodes :: "string \<rightharpoonup> dev_node"
  open_log :: "(string \<times> open_mode) list"
  read_log :: "(string \<times> nat \<times> nat) list"

definition os_open :: "string \<Rightarrow> open_mode \<Rightarrow> devices \<Rightarrow> (oserror + string) \<times> devices" where
  "os_open p m d =
     ((case nodes d p of
         None \<Rightarrow> Inl (OSErr FileNotFoundError ''No such file or directory''
                        (''[Errno 2] No such file or directory: '' @ p))
       | Some Dev_denied \<Rightarrow> Inl (OSErr PermissionError ''Permission denied''
                        (''[Errno 13] Permission denied: '' @ p))
       | Some (Dev_fails s) \<Rightarrow> Inl (OSErr OtherOSError s (s @ '': '' @ p))
       | Some (Dev bs) \<Rightarrow> Inr p),
      d\<lparr>open_log := open_log d @ [(p, m)]\<rparr>)"

definition enospc :: oserror where
  "enospc = OSErr OtherOSError ''No space left on device'' ''[Errno 28] No space left on device''"

definition ebadf :: oserror where
  "ebadf = OSErr OtherOSError ''Bad file descriptor'' ''[Errno 9] Bad file descriptor''"

definition fd_write :: "string \<Rightarrow> nat \<Rightarrow> bytes \<Rightarrow> devices \<Rightarrow> (oserror + nat) \<times> devices" where
  "fd_write p pos chunk d =
     (case nodes d p of
        Some (Dev bs) \<Rightarrow>
          (if length bs \<le> pos then (Inl enospc, d)
           else let n = min (length chunk) (length bs - pos)
                in (Inr n, d\<lparr>nodes := (nodes d)(p \<mapsto> Dev (take pos bs @ take n chunk @ drop (pos + n) bs))\<rparr>))
      | _ \<Rightarrow> (Inl ebadf, d))"

text \<open>
  \<open>read(n)\<close> on the unbuffered file object of a device delivers the next \<open>n\<close> bytes of the
  device, fewer at its end.
\<close>

definition fd_read :: "string \<Rightarrow> nat \<Rightarrow> nat \<Rightarrow> devices \<Rightarrow> bytes \<times> devices" where
  "fd_read p pos n d =
     ((case nodes d p of Some (Dev bs) \<Rightarrow> take n (drop pos bs) | _ \<Rightarrow> []),
      d\<lparr>read_log := read_log d @ [(p, pos, n)]\<rparr>)"

text \<open>
  The destination of a write: \<open>io.BytesIO()\<close> in a dry run, else the unbuffered file object
  over the descriptor of the device, at a position.
\<close>

datatype dest = BytesIO bytes | DeviceFile string nat

fun dest_write :: "dest \<Rightarrow> bytes \<Rightarrow> devices \<Rightarrow> (oserror + dest) \<times> devices" where
  "dest_write (BytesIO b) chunk d = (Inr (BytesIO (b @ chunk)), d)"
| "dest_write (DeviceFile p pos) chunk d =
     (case fd_write p pos chunk d of
        (Inl e, d') \<Rightarrow> (Inl e, d')
      | (Inr n, d') \<Rightarrow> (Inr (DeviceFile p (pos + n)), d'))"

text \<open>
  The state a flash runs in: the image side (the file system the image lives in, of any
  type \<open>'s\<close>), the device side, the values the callbacks were called with (\<open>out\<close>), and
  the calls made to the image source's capabilities.
\<close>

datatype call = Call_open_stream | Call_cleanup

record ('s, 'ev) world =
  img :: 's
  devs :: devices
  out :: "'ev list"
  calls :: "call list"

record 's image_source =
  open_stream :: "'s \<Rightarrow> (pyexn + stream) \<times> 's"
  size_opt :: "nat option"
  display_name :: string
  cleanup :: "'s \<Rightarrow> pyexn option \<times> 's"

type_synonym 'ev progress_callback = "nat \<Rightarrow> nat option \<Rightarrow> 'ev"
type_synonym 'ev status_callback = "string \<Rightarrow> 'ev"

definition call_status :: "'ev status_callback option \<Rightarrow> string \<Rightarrow> ('s, 'ev) world \<Rightarrow> ('s, 'ev) world" where
  "call_status status_callback message w =
     (case status_callback of None \<Rightarrow> w | Some f \<Rightarrow> w\<lparr>out := out w @ [f message]\<rparr>)"

definition call_progress ::
  "'ev progress_callback option \<Rightarrow> nat \<Rightarrow> nat option \<Rightarrow> ('s, 'ev) world \<Rightarrow> ('s, 'ev) world" where
  "call_progress progress_callback current total_bytes w =
     (case progress_callback of
        None \<Rightarrow> w
      | Some f \<Rightarrow> w\<lparr>out := out w @ [f current total_bytes]\<rparr>)"

definition call_open_stream :: "'s image_source \<Rightarrow> ('s, 'ev) world \<Rightarrow> (pyexn + stream) \<times> ('s, 'ev) world" where
  "call_open_stream image_source w =
     (case open_stream image_source (img w) of
        (r, s) \<Rightarrow> (r, w\<lparr>img := s, calls := calls w @ [Call_open_stream]\<rparr>))"

subsection \<open>stream_image_to_device\<close>

text \<open>The \<open>while True\<close> loop of \<open>stream_image_to_device\<close>; \<open>source\<close> is what the stream has left.\<close>

function write_loop ::
  "int \<Rightarrow> bytes \<Rightarrow> dest \<Rightarrow> nat \<Rightarrow> nat option \<Rightarrow> 'ev progress_callback option \<Rightarrow>
   ('s, 'ev) world \<Rightarrow> (pyexn + nat) \<times> ('s, 'ev) world" where
  "write_loop chunk_size source destination bytes_written total_bytes progress_callback w =
     (if fst (stream_read chunk_size source) = [] then (Inr bytes_written, w)
      else
        (case dest_write destination (fst (stream_read chunk_size source)) (devs w) of
           (Inl e, d) \<Rightarrow> (Inl (OSError e), w\<lparr>devs := d\<rparr>)
         | (Inr destination', d) \<Rightarrow>
             write_loop chunk_size (snd (stream_read chunk_size source)) destination'
               (bytes_written + length (fst (stream_read chunk_size source))) total_bytes
               progress_callback
               (call_progress progress_callback
                  (bytes_written + length (fst (stream_read chunk_size source))) total_bytes
                  (w\<lparr>devs := d\<rparr>))))"
  by pat_completeness auto
termination
  by (relation "measure (\<lambda>(cs, source, _). length source)")
     (auto simp: stream_read_def split: if_splits)

declare write_loop.simps [simp del]

definition stream_image_to_device ::
  "'s image_source \<Rightarrow> string \<Rightarrow> int \<Rightarrow> 'ev progress_callback option \<Rightarrow>
   'ev status_callback option \<Rightarrow> bool \<Rightarrow> ('s, 'ev) world \<Rightarrow> (pyexn + nat) \<times> ('s, 'ev) world" where
  "stream_image_to_device image_source device_path chunk_size progress_callback status_callback
       dry_run w =
     (if chunk_size \<le> 0 then (Inl (ValueError ''chunk_size must be positive''), w)
      else
        (case call_open_stream image_source (call_status status_callback ''Starting write'' w) of
           (Inl exc, w1) \<Rightarrow>
             (case exc of
                OSError e \<Rightarrow> (Inl (FlashError (''Unable to open image: '' @ str_oserror e)), w1)
              | _ \<Rightarrow> (Inl exc, w1))
         | (Inr source, w1) \<Rightarrow>
             (case (if dry_run then (Inr (BytesIO []), devs w1)
                    else (case os_open device_path O_RDWR_SYNC (devs w1) of
                            (Inl e, d) \<Rightarrow>
                              (Inl (case kind e of
                                      PermissionError \<Rightarrow>
                                        FlashError (''Permission denied when opening '' @ device_path
                                                    @ ''. Try running as root.'')
                                    | FileNotFoundError \<Rightarrow>
                                        FlashError (''Device not found: '' @ device_path)
                                    | OtherOSError \<Rightarrow>
                                        FlashError (''Unable to open device '' @ device_path @ '': ''
                                                    @ strerror e)), d)
                          | (Inr fd, d) \<Rightarrow> (Inr (DeviceFile fd 0), d))) of
                (Inl err, d) \<Rightarrow> (Inl err, w1\<lparr>devs := d\<rparr>)
              | (Inr destination, d) \<Rightarrow>
                  (case write_loop chunk_size (content source) destination 0 (size_opt image_source)
                          progress_callback (w1\<lparr>devs := d\<rparr>) of
                     (Inl exc, w2) \<Rightarrow> (Inl exc, w2)
                   | (Inr bytes_written, w2) \<Rightarrow>
                       (Inr bytes_written, call_status status_callback ''Write completed'' w2)))))"

subsection \<open>verify_device_contents\<close>

text \<open>
  The \<open>while True\<close> loop of \<open>verify_device_contents\<close>; \<open>pos\<close> is the position of the
  device's file object, which each read advances by the number of bytes it delivered.
\<close>

function verify_loop ::
  "int \<Rightarrow> bytes \<Rightarrow> string \<Rightarrow> nat \<Rightarrow> nat \<Rightarrow> nat option \<Rightarrow> 'ev progress_callback option \<Rightarrow>
   ('s, 'ev) world \<Rightarrow> (pyexn + unit) \<times> ('s, 'ev) world" where
  "verify_loop chunk_size source device pos bytes_checked total_bytes progress_callback w =
     (if fst (stream_read chunk_size source) = [] then (Inr (), w)
      else
        (case fd_read device pos (length (fst (stream_read chunk_size source))) (devs w) of
           (device_chunk, d) \<Rightarrow>
             (if fst (stream_read chunk_size source) \<noteq> device_chunk
              then (Inl (VerificationError
                           (''Verification failed at offset '' @ str_nat bytes_checked)),
                    w\<lparr>devs := d\<rparr>)
              else
                verify_loop chunk_size (snd (stream_read chunk_size source)) device
                  (pos + length device_chunk)
                  (bytes_checked + length (fst (stream_read chunk_size source))) total_bytes
                  progress_callback
                  (call_progress progress_callback
                     (bytes_checked + length (fst (stream_read chunk_size source))) total_bytes
                     (w\<lparr>devs := d\<rparr>)))))"
  by pat_completeness auto
termination
  by (relation "measure (\<lambda>(cs, source, _). length source)")
     (auto simp: stream_read_def split: if_splits)

declare verify_loop.simps [simp del]

definition verify_device_contents ::
  "'s image_source \<Rightarrow> string \<Rightarrow> int \<Rightarrow> 'ev progress_callback option \<Rightarrow>
   'ev status_callback option \<Rightarrow> ('s, 'ev) world \<Rightarrow> (pyexn + unit) \<times> ('s, 'ev) world" where
  "verify_device_contents image_source device_path chunk_size progress_callback status_callback w =
     (case call_open_stream image_source
             (call_status status_callback ''Starting verification'' w) of
        (Inl exc, w1) \<Rightarrow>
          (case exc of
             OSError e \<Rightarrow>
               (Inl (VerificationError (''Unable to reopen image: '' @ str_oserror e)), w1)
           | _ \<Rightarrow> (Inl exc, w1))
      | (Inr source, w1) \<Rightarrow>
          (case os_open device_path O_RDONLY (devs w1) of
             (Inl e, d) \<Rightarrow>
               (Inl (case kind e of
                       PermissionError \<Rightarrow>
                         VerificationError (''Permission denied when reading '' @ device_path
                                            @ ''. Try running as root.'')
                     | FileNotFoundError \<Rightarrow>
                         VerificationError (''Device not found: '' @ device_path)
                     | OtherOSError \<Rightarrow>
                         VerificationError (''Unable to read '' @ device_path @ '': ''
                                            @ strerror e)),
                w1\<lparr>devs := d\<rparr>)
           | (Inr device, d) \<Rightarrow>
               (case verify_loop chunk_size (content source) device 0 0 (size_opt image_source)
                       progress_callback (w1\<lparr>devs := d\<rparr>) of
                  (Inl exc, w2) \<Rightarrow> (Inl exc, w2)
                | (Inr u, w2) \<Rightarrow>
                    (Inr (), call_status status_callback ''Verification completed'' w2))))"

subsection \<open>flash_image: the try block and its finally clause\<close>

definition flash_try ::
  "'s image_source \<Rightarrow> string \<Rightarrow> bool \<Rightarrow> int \<Rightarrow> 'ev progress_callback option \<Rightarrow>
   'ev progress_callback option \<Rightarrow> 'ev status_callback option \<Rightarrow> bool \<Rightarrow>
   ('s, 'ev) world \<Rightarrow> (pyexn + nat) \<times> ('s, 'ev) world" where
  "flash_try image_source device_path verify chunk_size progress_callback
       verify_progress_callback status_callback dry_run w =
     (case stream_image_to_device image_source device_path chunk_size progress_callback
             status_callback dry_run w of
        (Inl exc, w1) \<Rightarrow> (Inl exc, w1)
      | (Inr written, w1) \<Rightarrow>
          (if verify \<and> \<not> dry_run then
             (case verify_device_contents image_source device_path chunk_size
                     (case verify_progress_callback of
                        Some f \<Rightarrow> Some f
                      | None \<Rightarrow> progress_callback)
                     status_callback w1 of
                (Inl exc, w2) \<Rightarrow> (Inl exc, w2)
              | (Inr u, w2) \<Rightarrow> (Inr written, w2))
           else (Inr written, w1)))"

text \<open>
  \<open>finally: image_source.cleanup()\<close>: the call is made whatever the try block did; an
  exception leaving \<open>cleanup\<close> would replace the outcome of the try block.
\<close>

definition flash_finally ::
  "'s image_source \<Rightarrow> (pyexn + nat) \<times> ('s, 'ev) world \<Rightarrow> (pyexn + nat) \<times> ('s, 'ev) world" where
  "flash_finally image_source rw =
     (case rw of
        (r, w) \<Rightarrow>
          (case cleanup image_source (img w) of
             (None, s) \<Rightarrow> (r, w\<lparr>img := s, calls := calls w @ [Call_cleanup]\<rparr>)
           | (Some exc, s) \<Rightarrow> (Inl exc, w\<lparr>img := s, calls := calls w @ [Call_cleanup]\<rparr>)))"

definition flash_source ::
  "'s image_source \<Rightarrow> string \<Rightarrow> bool \<Rightarrow> int \<Rightarrow> 'ev progress_callback option \<Rightarrow>
   'ev progress_callback option \<Rightarrow> 'ev status_callback option \<Rightarrow> bool \<Rightarrow>
   ('s, 'ev) world \<Rightarrow> (pyexn + nat) \<times> ('s, 'ev) world" where
  "flash_source image_source device_path verify chunk_size progress_callback
       verify_progress_callback status_callback dry_run w =
     flash_finally image_source
       (flash_try image_source device_path verify chunk_size progress_callback
          verify_progress_callback status_callback dry_run w)"

subsection \<open>prepare_image_source\<close>

text \<open>
  The file system the image lives in. A path outside the temporary directories holds a
  regular file or a directory. The directories \<open>tempfile.mkdtemp\<close> makes are kept apart, by
  number, each with the files in it (\<open>None\<close> once the directory is removed), so that a new one
  is fresh by construction. \<open>extractions\<close> logs every file \<open>ensure_extracted\<close> writes.
\<close>

datatype node = Regular bytes | Directory

record fs =
  entries :: "string \<rightharpoonup> node"
  temps :: "(string \<rightharpoonup> bytes) option list"
  extractions :: "loc list"

text \<open>
  What the standard library computes is taken as given: \<open>pathlib\<close>'s reading of a path (its
  \<open>str\<close>, \<open>name\<close> and \<open>suffixes\<close>), the decoders, and \<open>zipfile\<close>'s reading of an archive
  (\<open>None\<close> where it raises \<open>BadZipFile\<close>). A \<open>ZipInfo\<close> carries its \<open>filename\<close>, \<open>is_dir()\<close>,
  \<open>file_size\<close>, the \<open>name\<close> of \<open>Path(filename)\<close>, and the bytes \<open>archive.open\<close> delivers for it.
\<close>

record pure_path =
  path_str :: string
  path_name :: string
  path_suffixes :: "string list"

record zip_info =
  filename :: string
  is_dir :: bool
  file_size :: nat
  base_name :: string
  payload :: bytes

record library =
  Path :: "string \<Rightarrow> pure_path"
  gzip_decode :: "bytes \<Rightarrow> bytes"
  lzma_decode :: "bytes \<Rightarrow> bytes"
  bz2_decode :: "bytes \<Rightarrow> bytes"
  infolist :: "bytes \<Rightarrow> zip_info list option"

definition lower_char :: "char \<Rightarrow> char" where
  "lower_char c =
     (case map_of (zip ''ABCDEFGHIJKLMNOPQRSTUVWXYZ'' ''abcdefghijklmnopqrstuvwxyz'') c of
        Some l \<Rightarrow> l
      | None \<Rightarrow> c)"

definition lower :: "string \<Rightarrow> string" where
  "lower s = map lower_char s"

definition enoent :: "string \<Rightarrow> oserror" where
  "enoent p = OSErr FileNotFoundError ''No such file or directory''
                (''[Errno 2] No such file or directory: '' @ p)"

definition eisdir :: "string \<Rightarrow> oserror" where
  "eisdir p = OSErr OtherOSError ''Is a directory'' (''[Errno 21] Is a directory: '' @ p)"

definition enotempty :: oserror where
  "enotempty = OSErr OtherOSError ''Directory not empty'' ''[Errno 39] Directory not empty''"

definition temp_dir_of :: "fs \<Rightarrow> nat \<Rightarrow> (string \<rightharpoonup> bytes) option" where
  "temp_dir_of s n = (if n < length (temps s) then temps s ! n else None)"

fun str_loc :: "loc \<Rightarrow> string" where
  "str_loc (Plain p) = p"
| "str_loc (InTemp n f) = ''/tmp/shark_etcher_zip_'' @ str_nat n @ ''/'' @ f"

fun path_exists :: "loc \<Rightarrow> fs \<Rightarrow> bool" where
  "path_exists (Plain p) s = (entries s p \<noteq> None)"
| "path_exists (InTemp n f) s =
     (case temp_dir_of s n of None \<Rightarrow> False | Some files \<Rightarrow> files f \<noteq> None)"

text \<open>\<open>open(path, "rb")\<close>, with the decoder the stream is read through.\<close>

fun open_rb :: "(bytes \<Rightarrow> bytes) \<Rightarrow> loc \<Rightarrow> fs \<Rightarrow> pyexn + stream" where
  "open_rb decode (Plain p) s =
     (case entries s p of
        None \<Rightarrow> Inl (OSError (enoent p))
      | Some Directory \<Rightarrow> Inl (OSError (eisdir p))
      | Some (Regular raw) \<Rightarrow> Inr \<lparr>fname = Plain p, content = decode raw\<rparr>)"
| "open_rb decode (InTemp n f) s =
     (case temp_dir_of s n of
        None \<Rightarrow> Inl (OSError (enoent (str_loc (InTemp n f))))
      | Some files \<Rightarrow>
          (case files f of
             None \<Rightarrow> Inl (OSError (enoent (str_loc (InTemp n f))))
           | Some raw \<Rightarrow> Inr \<lparr>fname = InTemp n f, content = decode raw\<rparr>))"

definition mkdtemp :: "fs \<Rightarrow> nat \<times> fs" where
  "mkdtemp s = (length (temps s), s\<lparr>temps := temps s @ [Some Map.empty]\<rparr>)"

definition unlink :: "nat \<Rightarrow> string \<Rightarrow> fs \<Rightarrow> fs" where
  "unlink n f s =
     (case temp_dir_of s n of
        None \<Rightarrow> s
      | Some files \<Rightarrow> s\<lparr>temps := (temps s)[n := Some (files(f := None))]\<rparr>)"

definition rmdir :: "nat \<Rightarrow> fs \<Rightarrow> oserror option \<times> fs" where
  "rmdir n s =
     (case temp_dir_of s n of
        None \<Rightarrow> (Some (enoent (''/tmp/shark_etcher_zip_'' @ str_nat n)), s)
      | Some files \<Rightarrow>
          (if files = Map.empty then (None, s\<lparr>temps := (temps s)[n := None]\<rparr>)
           else (Some enotempty, s)))"

text \<open>
  \<open>ensure_extracted\<close>: the archive at \<open>path\<close> is opened again and the entry copied to
  \<open>target_path\<close>, unless \<open>target_path\<close> exists.
\<close>

definition ensure_extracted ::
  "library \<Rightarrow> string \<Rightarrow> zip_info \<Rightarrow> nat \<Rightarrow> string \<Rightarrow> fs \<Rightarrow> (pyexn + loc) \<times> fs" where
  "ensure_extracted lib path entry temp_dir target s =
     (if path_exists (InTemp temp_dir target) s then (Inr (InTemp temp_dir target), s)
      else
        (case entries s path of
           None \<Rightarrow> (Inl (OSError (enoent path)), s)
         | Some Directory \<Rightarrow> (Inl (OSError (eisdir path)), s)
         | Some (Regular raw) \<Rightarrow>
             (case infolist lib raw of
                None \<Rightarrow> (Inl (OtherException ''BadZipFile''), s)
              | Some infos \<Rightarrow>
                  (case temp_dir_of s temp_dir of
                     None \<Rightarrow> (Inl (OSError (enoent (str_loc (InTemp temp_dir target)))), s)
                   | Some files \<Rightarrow>
                       (Inr (InTemp temp_dir target),
                        s\<lparr>temps := (temps s)[temp_dir := Some (files(target \<mapsto> payload entry))],
                          extractions := extractions s @ [InTemp temp_dir target]\<rparr>)))))"

definition zip_make_stream ::
  "library \<Rightarrow> string \<Rightarrow> zip_info \<Rightarrow> nat \<Rightarrow> string \<Rightarrow> fs \<Rightarrow> (pyexn + stream) \<times> fs" where
  "zip_make_stream lib path entry temp_dir target s =
     (case ensure_extracted lib path entry temp_dir target s of
        (Inl exc, s1) \<Rightarrow> (Inl exc, s1)
      | (Inr extracted, s1) \<Rightarrow> (open_rb (\<lambda>b. b) extracted s1, s1))"

text \<open>The \<open>cleanup\<close> closure of the zip branch: its \<open>OSError\<close>s are passed over.\<close>

definition zip_cleanup :: "nat \<Rightarrow> string \<Rightarrow> fs \<Rightarrow> pyexn option \<times> fs" where
  "zip_cleanup temp_dir target s =
     (case rmdir temp_dir
             (if path_exists (InTemp temp_dir target) s then unlink temp_dir target s else s) of
        (None, s1) \<Rightarrow> (None, s1)
      | (Some e, s1) \<Rightarrow> (None, s1))"

fun run_cleanup :: "('s \<Rightarrow> pyexn option \<times> 's) list \<Rightarrow> 's \<Rightarrow> pyexn option \<times> 's" where
  "run_cleanup [] s = (None, s)"
| "run_cleanup (func # cleanup_callbacks) s =
     (case func s of
        (None, s1) \<Rightarrow> run_cleanup cleanup_callbacks s1
      | (Some exc, s1) \<Rightarrow>
          (if is_Exception exc then run_cleanup cleanup_callbacks s1 else (Some exc, s1)))"

definition prepare_image_source :: "library \<Rightarrow> string \<Rightarrow> fs \<Rightarrow> (pyexn + fs image_source) \<times> fs" where
  "prepare_image_source lib image_path s =
     (let path = Path lib image_path in
      case entries s (path_str path) of
        None \<Rightarrow> (Inl (FlashError (''Image file not found: '' @ path_str path)), s)
      | Some Directory \<Rightarrow> (Inl (FlashError (''Image path is not a file: '' @ path_str path)), s)
      | Some (Regular raw) \<Rightarrow>
          (let suffixes = map lower (path_suffixes path) in
           if suffixes \<noteq> [] \<and> last suffixes \<in> {''.gz'', ''.gzip''} then
             (Inr \<lparr>open_stream = (\<lambda>t. (open_rb (gzip_decode lib) (Plain (path_str path)) t, t)),
                   size_opt = None, display_name = path_name path,
                   cleanup = run_cleanup []\<rparr>, s)
           else if suffixes \<noteq> [] \<and> last suffixes \<in> {''.xz'', ''.lzma''} then
             (Inr \<lparr>open_stream = (\<lambda>t. (open_rb (lzma_decode lib) (Plain (path_str path)) t, t)),
                   size_opt = None, display_name = path_name path,
                   cleanup = run_cleanup []\<rparr>, s)
           else if suffixes \<noteq> [] \<and> last suffixes \<in> {''.bz2'', ''.bzip2''} then
             (Inr \<lparr>open_stream = (\<lambda>t. (open_rb (bz2_decode lib) (Plain (path_str path)) t, t)),
                   size_opt = None, display_name = path_name path,
                   cleanup = run_cleanup []\<rparr>, s)
           else if suffixes \<noteq> [] \<and> last suffixes = ''.zip'' then
             (case infolist lib raw of
                None \<Rightarrow> (Inl (OtherException ''BadZipFile''), s)
              | Some infos \<Rightarrow>
                  (case filter (\<lambda>info. \<not> is_dir info) infos of
                     [entry] \<Rightarrow>
                       (case mkdtemp s of
                          (temp_dir, s1) \<Rightarrow>
                            (Inr \<lparr>open_stream =
                                    zip_make_stream lib (path_str path) entry temp_dir
                                      (base_name entry),
                                  size_opt = Some (file_size entry),
                                  display_name = path_name path @ '' -> '' @ filename entry,
                                  cleanup = run_cleanup [zip_cleanup temp_dir (base_name entry)]\<rparr>,
                             s1))
                   | _ \<Rightarrow>
                       (Inl (FlashError ''ZIP archives must contain exactly one image file''), s)))
           else
             (Inr \<lparr>open_stream = (\<lambda>t. (open_rb (\<lambda>b. b) (Plain (path_str path)) t, t)),
                   size_opt = Some (length raw), display_name = path_name path,
                   cleanup = run_cleanup []\<rparr>, s)))"

definition flash_image ::
  "library \<Rightarrow> string \<Rightarrow> string \<Rightarrow> bool \<Rightarrow> int \<Rightarrow> 'ev progress_callback option \<Rightarrow>
   'ev progress_callback option \<Rightarrow> 'ev status_callback option \<Rightarrow> bool \<Rightarrow>
   (fs, 'ev) world \<Rightarrow> (pyexn + nat) \<times> (fs, 'ev) world" where
  "flash_image lib image_path device_path verify chunk_size progress_callback
       verify_progress_callback status_callback dry_run w =
     (case prepare_image_source lib image_path (img w) of
        (Inl exc, s) \<Rightarrow> (Inl exc, w\<lparr>img := s\<rparr>)
      | (Inr image_source, s) \<Rightarrow>
          flash_source image_source device_path verify chunk_size progress_callback
            verify_progress_callback status_callback dry_run (w\<lparr>img := s\<rparr>))"

section \<open>devices.py: unmounting\<close>

record block_device =
  name :: string
  path :: string
  size_bytes :: int
  model :: string
  removable :: bool
  transport :: "string option"
  description :: string
  mountpoints :: "string list"

text \<open>
  \<open>subprocess.run(cmd, check=True, capture_output=True, text=True)\<close> ends in one of the
  three ways the code provides for: it completes (with its standard output), the command
  exits with a nonzero status (\<open>CalledProcessError\<close>), or the program is not there
  (\<open>FileNotFoundError\<close>). The system the commands act on is a state of any type \<open>'u\<close>, which
  a command may change. \<open>set_slot\<close> stands for the order in which the interpreter iterates
  over a set of strings: the elements come out by slot, and in insertion order within a slot.
\<close>

datatype proc_result = Completed string | CalledProcessError | FileNotFound

record 'u system =
  subprocess_run :: "string list \<Rightarrow> 'u \<Rightarrow> proc_result \<times> 'u"
  shutil_which :: "string \<Rightarrow> 'u \<Rightarrow> bool"
  set_slot :: "string \<Rightarrow> nat"

text \<open>An attempt: the target it was made for, the command, and whether the command completed.\<close>

type_synonym attempt = "string \<times> string list \<times> bool"

definition isspace :: "char \<Rightarrow> bool" where
  "isspace c = ((of_char c :: nat) \<in> {9, 10, 11, 12, 13, 28, 29, 30, 31, 32, 133, 160})"

definition strip :: "string \<Rightarrow> string" where
  "strip s = rev (dropWhile isspace (rev (dropWhile isspace s)))"

fun join :: "string \<Rightarrow> string list \<Rightarrow> string" where
  "join sep [] = []"
| "join sep [x] = x"
| "join sep (x # y # ys) = x @ sep @ join sep (y # ys)"

definition lookup_mount_source :: "'u system \<Rightarrow> string \<Rightarrow> 'u \<Rightarrow> string option \<times> 'u" where
  "lookup_mount_source sys target u =
     (case subprocess_run sys [''findmnt'', ''-no'', ''SOURCE'', ''--'', target] u of
        (Completed stdout, u1) \<Rightarrow> (if strip stdout = [] then None else Some (strip stdout), u1)
      | (CalledProcessError, u1) \<Rightarrow> (None, u1)
      | (FileNotFound, u1) \<Rightarrow> (None, u1))"

text \<open>The \<open>for cmd in candidates\<close> loop of \<open>_unmount_target\<close>.\<close>

fun try_candidates ::
  "'u system \<Rightarrow> string \<Rightarrow> string list list \<Rightarrow> 'u \<Rightarrow> attempt list \<Rightarrow> bool \<times> 'u \<times> attempt list" where
  "try_candidates sys target [] u log = (False, u, log)"
| "try_candidates sys target (cmd # candidates) u log =
     (case subprocess_run sys cmd u of
        (Completed stdout, u1) \<Rightarrow> (True, u1, log @ [(target, cmd, True)])
      | (CalledProcessError, u1) \<Rightarrow> try_candidates sys target candidates u1 (log @ [(target, cmd, False)])
      | (FileNotFound, u1) \<Rightarrow> try_candidates sys target candidates u1 (log @ [(target, cmd, False)]))"

definition unmount_target ::
  "'u system \<Rightarrow> string \<Rightarrow> 'u \<Rightarrow> attempt list \<Rightarrow> bool \<times> 'u \<times> attempt list" where
  "unmount_target sys target u log =
     (case lookup_mount_source sys target u of
        (source, u1) \<Rightarrow>
          try_candidates sys target
            ([[''umount'', target]]
             @ (case source of
                  None \<Rightarrow> []
                | Some src \<Rightarrow>
                    (if shutil_which sys ''udisksctl'' u1
                     then [[''udisksctl'', ''unmount'', ''-b'', src]] else []))
             @ [[''umount'', ''-l'', target]])
            u1 log)"

text \<open>
  \<open>sorted(xs, key=len, reverse=True)\<close>: stable, so elements of equal length keep the order
  they had. \<open>set_iter\<close> is the iteration over \<open>{mp for mp in mountpoints if mp}\<close>.
\<close>

definition sorted_len_reverse :: "string list \<Rightarrow> string list" where
  "sorted_len_reverse xs = rev (sort_key length (rev xs))"

definition set_iter :: "'u system \<Rightarrow> string list \<Rightarrow> string list" where
  "set_iter sys xs = sort_key (set_slot sys) (remdups xs)"

definition unmount_targets :: "'u system \<Rightarrow> block_device \<Rightarrow> string list" where
  "unmount_targets sys device =
     sorted_len_reverse (set_iter sys (filter (\<lambda>mp. mp \<noteq> []) (mountpoints device)))"

text \<open>The \<open>for target in targets\<close> loop of \<open>unmount_device\<close>.\<close>

fun unmount_loop ::
  "'u system \<Rightarrow> string list \<Rightarrow> string list \<Rightarrow> string list \<Rightarrow> 'u \<Rightarrow> attempt list \<Rightarrow>
   (string list \<times> string list) \<times> 'u \<times> attempt list" where
  "unmount_loop sys [] unmounted errors u log = ((unmounted, errors), u, log)"
| "unmount_loop sys (target # targets) unmounted errors u log =
     (case unmount_target sys target u log of
        (True, u1, log1) \<Rightarrow> unmount_loop sys targets (unmounted @ [target]) errors u1 log1
      | (False, u1, log1) \<Rightarrow> unmount_loop sys targets unmounted (errors @ [target]) u1 log1)"

definition unmount_device ::
  "'u system \<Rightarrow> block_device \<Rightarrow> 'u \<Rightarrow> attempt list \<Rightarrow> (pyexn + string list) \<times> 'u \<times> attempt list" where
  "unmount_device sys device u log =
     (if unmount_targets sys device = [] then (Inr [], u, log)
      else
        (case unmount_loop sys (unmount_targets sys device) [] [] u log of
           ((unmounted, errors), u1, log1) \<Rightarrow>
             (if errors \<noteq> []
              then (Inl (UnmountError (''Failed to unmount: '' @ join '', '' errors) unmounted),
                    u1, log1)
              else (Inr unmounted, u1, log1))))"

text \<open>
  \<open>list_block_devices\<close> and \<open>find_device_by_path\<close>, over what the platform's enumeration
  gives: the disks, or the message of a \<open>DeviceEnumerationError\<close>.
\<close>

definition list_block_devices ::
  "(string + block_device list) \<Rightarrow> bool \<Rightarrow> string + block_device list" where
  "list_block_devices platform_devices require_removable =
     (case platform_devices of
        Inl msg \<Rightarrow> Inl msg
      | Inr devices \<Rightarrow> Inr (if require_removable then filter removable devices else devices))"

definition find_device_by_path ::
  "(string + block_device list) \<Rightarrow> string \<Rightarrow> bool \<Rightarrow> block_device option" where
  "find_device_by_path platform_devices device_path require_removable =
     (case list_block_devices platform_devices require_removable of
        Inl msg \<Rightarrow> None
      | Inr devices \<Rightarrow> find (\<lambda>device. path device = device_path) devices)"

text \<open>
  What the attempts show: the targets in the order of their first attempt (the plain
  \<open>umount\<close> every target starts with), and whether some command made for a target completed.
\<close>

definition attempt_order :: "attempt list \<Rightarrow> string list" where
  "attempt_order log = map fst (filter (\<lambda>e. fst (snd e) = [''umount'', fst e]) log)"

definition succeeded :: "attempt list \<Rightarrow> string \<Rightarrow> bool" where
  "succeeded log target = list_ex (\<lambda>e. fst e = target \<and> snd (snd e)) log"

section \<open>main.py: the worker\<close>

datatype phase = Write_phase | Verify_phase

datatype event =
    Progress phase nat "nat option"
  | Status string
  | Log string
  | Done nat bool
  | Error string

record args =
  image :: "string option"
  device :: "string option"
  verify :: bool
  dry_run :: bool
  chunk_size :: int

fun str_exn :: "pyexn \<Rightarrow> string" where
  "str_exn (FlashError m) = m"
| "str_exn (VerificationError m) = m"
| "str_exn (ValueError m) = m"
| "str_exn (UnmountError m partial) = m"
| "str_exn (OSError e) = str_oserror e"
| "str_exn KeyboardInterrupt = []"
| "str_exn (OtherException m) = m"

text \<open>
  The state of a worker: the system the unmount commands act on, the attempts made, and
  the world of the flash, whose \<open>out\<close> is the worker's standard output, line by line.
\<close>

record 'u worker_state =
  sys_state :: 'u
  attempts :: "attempt list"
  flash_world :: "(fs, event) world"

definition emit :: "event \<Rightarrow> 'u worker_state \<Rightarrow> 'u worker_state" where
  "emit ev st = st\<lparr>flash_world := (flash_world st)\<lparr>out := out (flash_world st) @ [ev]\<rparr>\<rparr>"

fun emit_all :: "event list \<Rightarrow> 'u worker_state \<Rightarrow> 'u worker_state" where
  "emit_all [] st = st"
| "emit_all (ev # evs) st = emit_all evs (emit ev st)"

text \<open>The \<open>try\<close> statement around \<open>flash_image\<close> in \<open>_run_worker\<close>, and what follows it.\<close>

definition worker_flash ::
  "library \<Rightarrow> string \<Rightarrow> string \<Rightarrow> args \<Rightarrow> 'u worker_state \<Rightarrow> int \<times> 'u worker_state" where
  "worker_flash lib image_path device_path a st =
     (case flash_image lib image_path device_path (verify a) (chunk_size a)
             (Some (\<lambda>current total_bytes. Progress Write_phase current total_bytes))
             (Some (\<lambda>current total_bytes. Progress Verify_phase current total_bytes))
             (Some (\<lambda>message. Status message))
             (dry_run a) (flash_world st) of
        (Inl exc, w) \<Rightarrow>
          (case exc of
             FlashError m \<Rightarrow> (2, emit (Error (str_exn exc)) (st\<lparr>flash_world := w\<rparr>))
           | VerificationError m \<Rightarrow> (3, emit (Error (str_exn exc)) (st\<lparr>flash_world := w\<rparr>))
           | KeyboardInterrupt \<Rightarrow> (130, emit (Error ''Operation cancelled'') (st\<lparr>flash_world := w\<rparr>))
           | _ \<Rightarrow> (99, emit (Error (''Unexpected error: '' @ str_exn exc)) (st\<lparr>flash_world := w\<rparr>)))
      | (Inr written, w) \<Rightarrow> (0, emit (Done written (dry_run a)) (st\<lparr>flash_world := w\<rparr>)))"

text \<open>
  \<open>_run_worker\<close>. \<open>not args.image\<close> holds of \<open>None\<close> and of the empty string.
\<close>

definition worker_unmount_and_flash ::
  "library \<Rightarrow> 'u system \<Rightarrow> (string + block_device list) \<Rightarrow> string \<Rightarrow> string \<Rightarrow> args \<Rightarrow>
   'u worker_state \<Rightarrow> int \<times> 'u worker_state" where
  "worker_unmount_and_flash lib sys platform_devices image_path device_path a st =
     (case find_device_by_path platform_devices device_path False of
        None \<Rightarrow>
          worker_flash lib image_path device_path a
            (emit (Log (''Warning: could not refresh device info for '' @ device_path)) st)
      | Some device_info \<Rightarrow>
          (if mountpoints device_info \<noteq> [] \<and> \<not> dry_run a then
             (let st1 = emit (Status (''Unmounting '' @ device_path)) st in
              case unmount_device sys device_info (sys_state st1) (attempts st1) of
                (Inl exc, u, log) \<Rightarrow>
                  (10, emit (Error (str_exn exc)) (st1\<lparr>sys_state := u, attempts := log\<rparr>))
              | (Inr unmounted, u, log) \<Rightarrow>
                  worker_flash lib image_path device_path a
                    (emit_all (map (\<lambda>mount. Log (''Unmounted '' @ mount)) unmounted)
                       (st1\<lparr>sys_state := u, attempts := log\<rparr>)))
           else worker_flash lib image_path device_path a st))"

definition run_worker ::
  "library \<Rightarrow> 'u system \<Rightarrow> (string + block_device list) \<Rightarrow> args \<Rightarrow> 'u worker_state \<Rightarrow>
   int \<times> 'u worker_state" where
  "run_worker lib sys platform_devices a st =
     (case (image a, device a) of
        (Some image_path, Some device_path) \<Rightarrow>
          (if image_path = [] \<or> device_path = []
           then (64, emit (Error ''Worker missing required arguments'') st)
           else worker_unmount_and_flash lib sys platform_devices image_path device_path a st)
      | _ \<Rightarrow> (64, emit (Error ''Worker missing required arguments'') st))"

subsection \<open>Events and exit codes, in the words of the specification\<close>

text \<open>
  A terminal event is \<open>done\<close> or \<open>error\<close>. \<open>out_extends P w w'\<close>: going from \<open>w\<close> to \<open>w'\<close>
  only added events that satisfy \<open>P\<close>. \<open>one_terminal\<close>: what was emitted is a run of events
  that are not terminal followed by one terminal event, \<open>done\<close> when the exit code is 0 and
  \<open>error\<close> otherwise. The categories of outcome are those the specification lists, with
  the exit code of each and the category of what \<open>flash_image\<close> returns or raises.
\<close>

definition out_extends :: "('ev \<Rightarrow> bool) \<Rightarrow> ('s, 'ev) world \<Rightarrow> ('t, 'ev) world \<Rightarrow> bool" where
  "out_extends P w w' = (\<exists>evs. out w' = out w @ evs \<and> list_all P evs)"

fun is_terminal :: "event \<Rightarrow> bool" where
  "is_terminal (Done n d) = True"
| "is_terminal (Error m) = True"
| "is_terminal _ = False"

datatype category =
    Success | Missing_arguments | Write_failure | Verification_failure | Unmount_failure
  | Cancelled | Unexpected

fun exit_code :: "category \<Rightarrow> int" where
  "exit_code Success = 0"
| "exit_code Missing_arguments = 64"
| "exit_code Write_failure = 2"
| "exit_code Verification_failure = 3"
| "exit_code Unmount_failure = 10"
| "exit_code Cancelled = 130"
| "exit_code Unexpected = 99"

fun flash_category :: "pyexn + nat \<Rightarrow> category" where
  "flash_category (Inr written) = Success"
| "flash_category (Inl (FlashError m)) = Write_failure"
| "flash_category (Inl (VerificationError m)) = Verification_failure"
| "flash_category (Inl KeyboardInterrupt) = Cancelled"
| "flash_category (Inl exc) = Unexpected"

definition one_terminal :: "bool \<Rightarrow> event list \<Rightarrow> event list \<Rightarrow> int \<Rightarrow> bool" where
  "one_terminal dry before after code =
     (\<exists>pre final. after = before @ pre @ [final] \<and> list_all (\<lambda>e. \<not> is_terminal e) pre \<and>
        (if code = 0 then \<exists>n. final = Done n dry else \<exists>m. final = Error m))"

section \<open>Example inputs\<close>

text \<open>
  An image source that holds its bytes in memory, and a world with a single device node
  and nothing logged yet.
\<close>

definition memory_source :: "bytes \<Rightarrow> 's image_source" where
  "memory_source data =
     \<lparr>open_stream = (\<lambda>s. (Inr \<lparr>fname = Plain ''image.img'', content = data\<rparr>, s)),
      size_opt = Some (length data), display_name = ''image.img'',
      cleanup = (\<lambda>s. (None, s))\<rparr>"

definition one_device :: "string \<Rightarrow> dev_node \<Rightarrow> (unit, event) world" where
  "one_device p node =
     \<lparr>img = (), devs = \<lparr>nodes = [p \<mapsto> node], open_log = [], read_log = []\<rparr>,
      out = [], calls = []\<rparr>"

text \<open>
  A disk with given mountpoints, and a system in which \<open>findmnt\<close> and \<open>udisksctl\<close> are
  missing and every \<open>umount\<close> completes but those of one busy mountpoint.
\<close>

definition usb_stick :: "string list \<Rightarrow> block_device" where
  "usb_stick mps =
     \<lparr>name = ''sdb'', path = ''/dev/sdb'', size_bytes = 8000000000, model = ''Flash Disk'',
      removable = True, transport = Some ''usb'',
      description = ''sdb - 7.5 GiB - Flash Disk (usb)'', mountpoints = mps\<rparr>"

definition busy_system :: "string \<Rightarrow> unit system" where
  "busy_system busy =
     \<lparr>subprocess_run =
        (\<lambda>cmd u. (case cmd of
                     [c, t] \<Rightarrow> if c = ''umount'' \<and> t \<noteq> busy then Completed [] else CalledProcessError
                   | _ \<Rightarrow> CalledProcessError, u)),
      shutil_which = (\<lambda>prog u. False),
      set_slot = (\<lambda>s. 0)\<rparr>"

text \<open>
  A zip archive with a directory entry and one image of three bytes, a library that reads
  it, a file system that holds it, a world with that file system and one device, and an
  in-memory source whose cleanup callback raises \<open>OSError\<close>.
\<close>

definition image_zip :: "zip_info list" where
  "image_zip =
     [\<lparr>filename = ''images/'', is_dir = True, file_size = 0, base_name = ''images'',
       payload = []\<rparr>,
      \<lparr>filename = ''images/disk.img'', is_dir = False, file_size = 3, base_name = ''disk.img'',
       payload = [1, 2, 3]\<rparr>]"

definition example_library :: library where
  "example_library =
     \<lparr>Path = (\<lambda>p. \<lparr>path_str = p, path_name = ''disk.ZIP'', path_suffixes = [''.ZIP'']\<rparr>),
      gzip_decode = (\<lambda>b. b), lzma_decode = (\<lambda>b. b), bz2_decode = (\<lambda>b. b),
      infolist = (\<lambda>raw. if raw = [80, 75] then Some image_zip else None)\<rparr>"

definition example_fs :: fs where
  "example_fs =
     \<lparr>entries = [''/home/u/disk.ZIP'' \<mapsto> Regular [80, 75]], temps = [], extractions = []\<rparr>"

definition example_world :: "bytes \<Rightarrow> (fs, event) world" where
  "example_world device_bytes =
     \<lparr>img = example_fs,
      devs = \<lparr>nodes = [''/dev/sdb'' \<mapsto> Dev device_bytes], open_log = [], read_log = []\<rparr>,
      out = [], calls = []\<rparr>"

definition failing_cleanup_source :: "bytes \<Rightarrow> unit image_source" where
  "failing_cleanup_source data =
     (memory_source data)\<lparr>cleanup := run_cleanup [\<lambda>s. (Some (OSError enotempty), s)]\<rparr>"

text \<open>The arguments and the initial state of a worker that flashes the archive.\<close>

definition example_args :: args where
  "example_args =
     \<lparr>image = Some ''/home/u/disk.ZIP'', device = Some ''/dev/sdb'', verify = True,
      dry_run = False, chunk_size = 2\<rparr>"

definition example_worker_state :: "unit worker_state" where
  "example_worker_state =
     \<lparr>sys_state = (), attempts = [], flash_world = example_world [0, 0, 0, 0]\<rparr>"

section \<open>Properties\<close>

lemma str_nat_lt10: "n < 10 \<Longrightarrow> str_nat n = [digit n]"
  by (simp add: str_nat.simps)


lemma call_progress_fields [simp]:
  "img (call_progress f c t w) = img w"
  "devs (call_progress f c t w) = devs w"
  "calls (call_progress f c t w) = calls w"
  by (simp_all add: call_progress_def split: option.splits)

lemma call_status_fields [simp]:
  "img (call_status f m w) = img w"
  "devs (call_status f m w) = devs w"
  "calls (call_status f m w) = calls w"
  by (simp_all add: call_status_def split: option.splits)

lemma write_loop_calls:
  "calls (snd (write_loop cs source dst bw t pcb w)) = calls w \<and>
   img (snd (write_loop cs source dst bw t pcb w)) = img w"
proof (induction cs source dst bw t pcb w rule: write_loop.induct)
  case (1 cs source dst bw t pcb w)
  show ?case
    apply (subst write_loop.simps)
    apply (subst (2) write_loop.simps)
    using 1 by (auto split: prod.splits sum.splits)
qed

lemma stream_read_pos:
  "0 < cs \<Longrightarrow> stream_read cs source = (take (nat cs) source, drop (nat cs) source)"
  by (simp add: stream_read_def)

lemma write_loop_dry:
  "0 < cs \<Longrightarrow>
   fst (write_loop cs source (BytesIO b) bw t pcb w) = Inr (bw + length source) \<and>
   devs (snd (write_loop cs source (BytesIO b) bw t pcb w)) = devs w"
proof (induction "length source" arbitrary: source b bw w rule: less_induct)
  case less
  show ?case
  proof (cases "take (nat cs) source = []")
    case True
    with less(2) have "source = []" by (auto simp: take_eq_Nil)
    then show ?thesis
      using less(2) by (subst write_loop.simps, subst (2) write_loop.simps) (simp add: stream_read_pos)
  next
    case False
    then have "source \<noteq> []" by auto
    with less(2) have lt: "length (drop (nat cs) source) < length source" by simp
    have len: "length (take (nat cs) source) + length (drop (nat cs) source) = length source"
      by simp
    show ?thesis
      apply (subst write_loop.simps, subst (2) write_loop.simps)
      using less(1)[OF lt less(2)] False less(2) len
      by (simp add: stream_read_pos del: length_take length_drop)
  qed
qed


lemma call_open_stream_eq:
  "open_stream src (img w) = (r, s) \<Longrightarrow>
   call_open_stream src w = (r, w\<lparr>img := s, calls := calls w @ [Call_open_stream]\<rparr>)"
  by (simp add: call_open_stream_def)

lemma write_loop_calls': "calls (snd (write_loop cs source dst bw t pcb w)) = calls w"
  using write_loop_calls by blast

lemma stream_calls:
  assumes pos: "0 < cs"
  shows "calls (snd (stream_image_to_device src p cs pcb scb dry w)) = calls w @ [Call_open_stream]"
proof -
  obtain r s where o: "open_stream src (img w) = (r, s)" by (cases "open_stream src (img w)")
  then have o': "open_stream src (img (call_status scb ''Starting write'' w)) = (r, s)" by simp
  show ?thesis
    using pos
    by (auto simp: stream_image_to_device_def call_open_stream_eq[OF o'] os_open_def
          write_loop_calls'
        split: sum.splits pyexn.splits prod.splits option.splits dev_node.splits if_splits
        dest!: arg_cong[where f="\<lambda>x. calls (snd x)"])
qed

text \<open>
  C10: with \<open>chunk_size \<le> 0\<close>, \<open>stream_image_to_device\<close> raises \<open>ValueError\<close> and leaves the
  whole state as it was: no call to \<open>open_stream\<close>, no \<open>os.open\<close>, nothing written or emitted.
  With \<open>chunk_size > 0\<close> the guard is passed: the image stream is opened (exactly one
  \<open>open_stream\<close> call is added to the calls made).
\<close>

theorem chunk_size_guard:
  "(cs \<le> 0 \<longrightarrow>
      stream_image_to_device src p cs pcb scb dry w
        = (Inl (ValueError ''chunk_size must be positive''), w)) \<and>
   (0 < cs \<longrightarrow>
      calls (snd (stream_image_to_device src p cs pcb scb dry w)) = calls w @ [Call_open_stream])"
proof (intro conjI impI)
  assume "cs \<le> 0"
  then show "stream_image_to_device src p cs pcb scb dry w
        = (Inl (ValueError ''chunk_size must be positive''), w)"
    by (simp add: stream_image_to_device_def)
next
  assume "0 < cs"
  then show "calls (snd (stream_image_to_device src p cs pcb scb dry w))
               = calls w @ [Call_open_stream]"
    by (rule stream_calls)
qed

theorem chunk_size_guard_witness:
  "(0::int) \<le> 0 \<and>
   stream_image_to_device (memory_source [1, 2, 3]) ''/dev/sdb'' 0 None None False
       (one_device ''/dev/sdb'' (Dev [0, 0, 0, 0]))
     = (Inl (ValueError ''chunk_size must be positive''), one_device ''/dev/sdb'' (Dev [0, 0, 0, 0])) \<and>
   (0::int) < 2 \<and>
   calls (snd (stream_image_to_device (memory_source [1, 2, 3]) ''/dev/sdb'' 2 None None False
       (one_device ''/dev/sdb'' (Dev [0, 0, 0, 0])))) = [Call_open_stream]"
  using chunk_size_guard [of 0 "memory_source [1, 2, 3]" "''/dev/sdb''" None None False
          "one_device ''/dev/sdb'' (Dev [0, 0, 0, 0])"]
        chunk_size_guard [of 2 "memory_source [1, 2, 3]" "''/dev/sdb''" None None False
          "one_device ''/dev/sdb'' (Dev [0, 0, 0, 0])"]
  by (simp add: one_device_def)


lemma write_loop_dry_fst:
  "0 < cs \<Longrightarrow> fst (write_loop cs source (BytesIO b) bw t pcb w) = Inr (bw + length source)"
  using write_loop_dry by blast

lemma write_loop_dry_devs:
  "0 < cs \<Longrightarrow> devs (snd (write_loop cs source (BytesIO b) bw t pcb w)) = devs w"
  using write_loop_dry by blast

lemma dry_run_unfold:
  assumes "0 < cs" and "open_stream src (img w) = (Inr st, s)"
  shows "stream_image_to_device src p cs pcb scb True w =
           (case write_loop cs (content st) (BytesIO []) 0 (size_opt src) pcb
                   ((call_status scb ''Starting write'' w)
                      \<lparr>img := s, calls := calls w @ [Call_open_stream]\<rparr>) of
              (Inl exc, w2) \<Rightarrow> (Inl exc, w2)
            | (Inr n, w2) \<Rightarrow> (Inr n, call_status scb ''Write completed'' w2))"
proof -
  from assms(2) have o': "open_stream src (img (call_status scb ''Starting write'' w)) = (Inr st, s)"
    by simp
  show ?thesis
    using assms(1) by (simp add: stream_image_to_device_def call_open_stream_eq[OF o'])
qed

text \<open>
  C1: in a dry run \<open>stream_image_to_device\<close> leaves the device side as it was (no node is
  changed, no \<open>os.open\<close> and no read is logged), for every image source, chunk size and
  callbacks. Whenever it returns a count, the image stream was opened and the count is the
  length of the bytes of that stream; and with a positive chunk size and a stream that opens,
  it does return that length.
\<close>

theorem dry_run_leaves_device:
  "devs (snd (stream_image_to_device src p cs pcb scb True w)) = devs w \<and>
   (\<forall>n. fst (stream_image_to_device src p cs pcb scb True w) = Inr n \<longrightarrow>
      (\<exists>st s. open_stream src (img w) = (Inr st, s) \<and> n = length (content st))) \<and>
   (\<forall>st s. 0 < cs \<and> open_stream src (img w) = (Inr st, s) \<longrightarrow>
      fst (stream_image_to_device src p cs pcb scb True w) = Inr (length (content st)))"
proof (cases "0 < cs")
  case False
  then show ?thesis by (simp add: stream_image_to_device_def)
next
  case pos: True
  obtain r s where o: "open_stream src (img w) = (r, s)" by (cases "open_stream src (img w)")
  show ?thesis
  proof (cases r)
    case (Inl exc)
    from o have o': "open_stream src (img (call_status scb ''Starting write'' w)) = (r, s)" by simp
    show ?thesis
      using pos Inl o
      by (auto simp: stream_image_to_device_def call_open_stream_eq[OF o'] split: pyexn.splits)
  next
    case (Inr st)
    let ?w1 = "(call_status scb ''Starting write'' w)
                 \<lparr>img := s, calls := calls w @ [Call_open_stream]\<rparr>"
    obtain r2 w2 where l: "write_loop cs (content st) (BytesIO []) 0 (size_opt src) pcb ?w1 = (r2, w2)"
      by (cases "write_loop cs (content st) (BytesIO []) 0 (size_opt src) pcb ?w1")
    from write_loop_dry_fst[OF pos, of "content st" "[]" 0 "size_opt src" pcb ?w1] l
    have r2: "r2 = Inr (length (content st))" by simp
    from write_loop_dry_devs[OF pos, of "content st" "[]" 0 "size_opt src" pcb ?w1] l
    have d2: "devs w2 = devs w" by simp
    from o Inr have o2: "open_stream src (img w) = (Inr st, s)" by simp
    show ?thesis
      using r2 d2 o2 by (simp add: dry_run_unfold[OF pos o2] l)
  qed
qed

theorem dry_run_leaves_device_witness:
  "(0::int) < 2 \<and>
   open_stream (memory_source [1, 2, 3]) () = (Inr \<lparr>fname = Plain ''image.img'', content = [1, 2, 3]\<rparr>, ()) \<and>
   devs (snd (stream_image_to_device (memory_source [1, 2, 3]) ''/dev/sdb'' 2 None None True
       (one_device ''/dev/sdb'' (Dev [0, 0, 0, 0]))))
     = \<lparr>nodes = [''/dev/sdb'' \<mapsto> Dev [0, 0, 0, 0]], open_log = [], read_log = []\<rparr> \<and>
   fst (stream_image_to_device (memory_source [1, 2, 3]) ''/dev/sdb'' 2 None None True
       (one_device ''/dev/sdb'' (Dev [0, 0, 0, 0]))) = Inr 3"
  using dry_run_leaves_device [of "memory_source [1, 2, 3]" "''/dev/sdb''" 2 None None
          "one_device ''/dev/sdb'' (Dev [0, 0, 0, 0])"]
  by (simp add: one_device_def memory_source_def)

lemma real_run_unfold:
  assumes "0 < cs" and "open_stream src (img w) = (Inr st, s)"
  shows "stream_image_to_device src p cs pcb scb False w =
           (let w1 = (call_status scb ''Starting write'' w)
                        \<lparr>img := s, calls := calls w @ [Call_open_stream]\<rparr>
            in case os_open p O_RDWR_SYNC (devs w) of
                 (Inl e, d) \<Rightarrow>
                    (Inl (case kind e of
                            PermissionError \<Rightarrow>
                              FlashError (''Permission denied when opening '' @ p
                                          @ ''. Try running as root.'')
                          | FileNotFoundError \<Rightarrow> FlashError (''Device not found: '' @ p)
                          | OtherOSError \<Rightarrow>
                              FlashError (''Unable to open device '' @ p @ '': '' @ strerror e)),
                     w1\<lparr>devs := d\<rparr>)
               | (Inr fd, d) \<Rightarrow>
                   (case write_loop cs (content st) (DeviceFile fd 0) 0 (size_opt src) pcb
                           (w1\<lparr>devs := d\<rparr>) of
                      (Inl exc, w2) \<Rightarrow> (Inl exc, w2)
                    | (Inr n, w2) \<Rightarrow> (Inr n, call_status scb ''Write completed'' w2)))"
proof -
  from assms(2) have o': "open_stream src (img (call_status scb ''Starting write'' w)) = (Inr st, s)"
    by simp
  show ?thesis
    using assms(1)
    by (simp add: stream_image_to_device_def call_open_stream_eq[OF o'] Let_def
          split: prod.splits sum.splits)
qed

text \<open>
  C3 (as amended): with a positive chunk size, \<open>stream_image_to_device\<close> fails with a
  \<open>FlashError\<close>, and with no other exception, when the image stream cannot be opened for
  an \<open>OSError\<close> (the message carries the error's text) and, outside a dry run, when opening
  the device fails: on permission denial and on a missing device the message carries the
  device path, on any other \<open>OSError\<close> of \<open>os.open\<close> the device path and the error's
  \<open>strerror\<close>.
\<close>

theorem write_open_failures:
  assumes "0 < cs"
  shows
    "(\<forall>e s. open_stream src (img w) = (Inl (OSError e), s) \<longrightarrow>
        fst (stream_image_to_device src p cs pcb scb dry w)
          = Inl (FlashError (''Unable to open image: '' @ str_oserror e))) \<and>
     (\<forall>st s. open_stream src (img w) = (Inr st, s) \<longrightarrow>
        (nodes (devs w) p = Some Dev_denied \<longrightarrow>
           fst (stream_image_to_device src p cs pcb scb False w)
             = Inl (FlashError (''Permission denied when opening '' @ p
                                @ ''. Try running as root.''))) \<and>
        (nodes (devs w) p = None \<longrightarrow>
           fst (stream_image_to_device src p cs pcb scb False w)
             = Inl (FlashError (''Device not found: '' @ p))) \<and>
        (\<forall>m. nodes (devs w) p = Some (Dev_fails m) \<longrightarrow>
           fst (stream_image_to_device src p cs pcb scb False w)
             = Inl (FlashError (''Unable to open device '' @ p @ '': '' @ m))))"
proof (intro conjI allI impI)
  fix e s
  assume o: "open_stream src (img w) = (Inl (OSError e), s)"
  then have o': "open_stream src (img (call_status scb ''Starting write'' w)) = (Inl (OSError e), s)"
    by simp
  show "fst (stream_image_to_device src p cs pcb scb dry w)
          = Inl (FlashError (''Unable to open image: '' @ str_oserror e))"
    using assms by (simp add: stream_image_to_device_def call_open_stream_eq[OF o'])
next
  fix st s
  assume o: "open_stream src (img w) = (Inr st, s)" and "nodes (devs w) p = Some Dev_denied"
  then show "fst (stream_image_to_device src p cs pcb scb False w)
             = Inl (FlashError (''Permission denied when opening '' @ p
                                @ ''. Try running as root.''))"
    by (simp add: real_run_unfold[OF assms o] os_open_def)
next
  fix st s
  assume o: "open_stream src (img w) = (Inr st, s)" and "nodes (devs w) p = None"
  then show "fst (stream_image_to_device src p cs pcb scb False w)
             = Inl (FlashError (''Device not found: '' @ p))"
    by (simp add: real_run_unfold[OF assms o] os_open_def)
next
  fix st s m
  assume o: "open_stream src (img w) = (Inr st, s)" and "nodes (devs w) p = Some (Dev_fails m)"
  then show "fst (stream_image_to_device src p cs pcb scb False w)
             = Inl (FlashError (''Unable to open device '' @ p @ '': '' @ m))"
    by (simp add: real_run_unfold[OF assms o] os_open_def)
qed

theorem write_open_failures_witness:
  "(0::int) < 2 \<and>
   open_stream (memory_source [1, 2, 3]) () = (Inr \<lparr>fname = Plain ''image.img'', content = [1, 2, 3]\<rparr>, ()) \<and>
   nodes (devs (one_device ''/dev/sdb'' Dev_denied)) ''/dev/sdb'' = Some Dev_denied \<and>
   fst (stream_image_to_device (memory_source [1, 2, 3]) ''/dev/sdb'' 2 None None False
          (one_device ''/dev/sdb'' Dev_denied))
     = Inl (FlashError ''Permission denied when opening /dev/sdb. Try running as root.'') \<and>
   nodes (devs (one_device ''/dev/sdb'' Dev_denied)) ''/dev/sdc'' = None \<and>
   fst (stream_image_to_device (memory_source [1, 2, 3]) ''/dev/sdc'' 2 None None False
          (one_device ''/dev/sdb'' Dev_denied))
     = Inl (FlashError ''Device not found: /dev/sdc'') \<and>
   nodes (devs (one_device ''/dev/sdb'' (Dev_fails ''Device or resource busy''))) ''/dev/sdb''
     = Some (Dev_fails ''Device or resource busy'') \<and>
   fst (stream_image_to_device (memory_source [1, 2, 3]) ''/dev/sdb'' 2 None None False
          (one_device ''/dev/sdb'' (Dev_fails ''Device or resource busy'')))
     = Inl (FlashError ''Unable to open device /dev/sdb: Device or resource busy'')"
  using write_open_failures [of 2 "memory_source [1, 2, 3]" "one_device ''/dev/sdb'' Dev_denied"
          "''/dev/sdb''" None None False]
        write_open_failures [of 2 "memory_source [1, 2, 3]" "one_device ''/dev/sdb'' Dev_denied"
          "''/dev/sdc''" None None False]
        write_open_failures [of 2 "memory_source [1, 2, 3]"
          "one_device ''/dev/sdb'' (Dev_fails ''Device or resource busy'')"
          "''/dev/sdb''" None None False]
  by (simp add: one_device_def memory_source_def)

text \<open>
  C3 as stated fails: an \<open>OSError\<close> raised by a write inside the copy loop leaves
  \<open>stream_image_to_device\<close> as it is. A four-byte image written in chunks of two to a device
  of two bytes gets ENOSPC at the second chunk, and the caller sees that \<open>OSError\<close>, not a
  \<open>FlashError\<close>.
\<close>

theorem write_failure_is_not_FlashError:
  "fst (stream_image_to_device (memory_source [1, 2, 3, 4]) ''/dev/sdb'' 2 None None False
          (one_device ''/dev/sdb'' (Dev [0, 0]))) = Inl (OSError enospc) \<and>
   (\<forall>m. fst (stream_image_to_device (memory_source [1, 2, 3, 4]) ''/dev/sdb'' 2 None None False
          (one_device ''/dev/sdb'' (Dev [0, 0]))) \<noteq> Inl (FlashError m))"
  by (simp add: stream_image_to_device_def call_open_stream_def call_status_def call_progress_def
        memory_source_def one_device_def os_open_def write_loop.simps stream_read_def
        fd_write_def)

lemma verify_loop_step:
  assumes "nodes (devs w) p = Some (Dev dev)" and "0 < cs"
  shows "verify_loop cs rest p pos bc t pcb w =
     (if rest = [] then (Inr (), w)
      else if take (nat cs) rest \<noteq> take (length (take (nat cs) rest)) (drop pos dev)
      then (Inl (VerificationError (''Verification failed at offset '' @ str_nat bc)),
            w\<lparr>devs := (devs w)\<lparr>read_log := read_log (devs w)
                                      @ [(p, pos, length (take (nat cs) rest))]\<rparr>\<rparr>)
      else verify_loop cs (drop (nat cs) rest) p (pos + length (take (nat cs) rest))
             (bc + length (take (nat cs) rest)) t pcb
             (call_progress pcb (bc + length (take (nat cs) rest)) t
                (w\<lparr>devs := (devs w)\<lparr>read_log := read_log (devs w)
                                          @ [(p, pos, length (take (nat cs) rest))]\<rparr>\<rparr>)))"
proof (cases "rest = []")
  case True
  then show ?thesis
    using assms(2) by (subst verify_loop.simps) (simp add: stream_read_pos)
next
  case False
  with assms(2) have ne: "take (nat cs) rest \<noteq> []" by simp
  show ?thesis
    apply (subst verify_loop.simps)
    using False ne assms
    by (simp add: stream_read_pos fd_read_def del: length_take take_eq_Nil)
qed

lemma verify_loop_match:
  assumes "0 < cs"
  shows "nodes (devs w) p = Some (Dev dev) \<Longrightarrow> drop pos dev = rest @ extra \<Longrightarrow>
     fst (verify_loop cs rest p pos bc t pcb w) = Inr () \<and>
     (\<exists>new. read_log (devs (snd (verify_loop cs rest p pos bc t pcb w))) = read_log (devs w) @ new \<and>
        (\<forall>r \<in> set new. fst (snd r) + snd (snd r) \<le> pos + length rest))"
proof (induction "length rest" arbitrary: rest pos bc w rule: less_induct)
  case less
  show ?case
  proof (cases "rest = []")
    case True
    then show ?thesis
      by (simp add: verify_loop_step[OF less(2) assms])
  next
    case False
    let ?n = "nat cs"
    let ?chunk = "take ?n rest"
    let ?w1 = "call_progress pcb (bc + length ?chunk) t
                (w\<lparr>devs := (devs w)\<lparr>read_log := read_log (devs w) @ [(p, pos, length ?chunk)]\<rparr>\<rparr>)"
    from assms have n: "0 < ?n" by simp
    from False n have lt: "length (drop ?n rest) < length rest" by simp
    have eq: "?chunk = take (length ?chunk) (drop pos dev)"
      by (simp add: less(3) min_def)
    have nodes1: "nodes (devs ?w1) p = Some (Dev dev)" using less(2) by simp
    have "drop (pos + length ?chunk) dev = drop (length ?chunk) (drop pos dev)"
      by (simp add: add.commute)
    also have "\<dots> = drop ?n rest @ extra"
      by (simp add: less(3) min_def)
    finally have d1: "drop (pos + length ?chunk) dev = drop ?n rest @ extra" .
    note IH = less(1)[OF lt nodes1 d1, of "bc + length ?chunk"]
    have step: "verify_loop cs rest p pos bc t pcb w =
         verify_loop cs (drop ?n rest) p (pos + length ?chunk) (bc + length ?chunk) t pcb ?w1"
      using False eq by (subst verify_loop_step[OF less(2) assms]) (simp del: length_take)
    from IH obtain new where
      r: "fst (verify_loop cs (drop ?n rest) p (pos + length ?chunk) (bc + length ?chunk) t pcb ?w1) = Inr ()"
      and l: "read_log (devs (snd (verify_loop cs (drop ?n rest) p (pos + length ?chunk)
                (bc + length ?chunk) t pcb ?w1))) = read_log (devs ?w1) @ new"
      and b: "\<forall>r \<in> set new. fst (snd r) + snd (snd r) \<le> pos + length ?chunk + length (drop ?n rest)"
      by blast
    have len: "length ?chunk + length (drop ?n rest) = length rest" by simp
    have "read_log (devs ?w1) = read_log (devs w) @ [(p, pos, length ?chunk)]" by simp
    with l have l': "read_log (devs (snd (verify_loop cs rest p pos bc t pcb w)))
        = read_log (devs w) @ ((p, pos, length ?chunk) # new)"
      by (simp add: step)
    have b': "\<forall>r \<in> set ((p, pos, length ?chunk) # new). fst (snd r) + snd (snd r) \<le> pos + length rest"
      using b len by (auto simp del: length_take length_drop)
    from r l' b' show ?thesis unfolding step by blast
  qed
qed


lemma verify_loop_mismatch:
  assumes "0 < cs"
  shows "nodes (devs w) p = Some (Dev dev) \<Longrightarrow> k < length rest \<Longrightarrow>
     take k (drop pos dev) = take k rest \<Longrightarrow>
     (k < length (drop pos dev) \<longrightarrow> drop pos dev ! k \<noteq> rest ! k) \<Longrightarrow>
     fst (verify_loop cs rest p pos bc t pcb w)
       = Inl (VerificationError
                (''Verification failed at offset '' @ str_nat (bc + k div nat cs * nat cs)))"
proof (induction k arbitrary: rest pos bc w rule: less_induct)
  case (less k)
  let ?n = "nat cs"
  let ?D = "drop pos dev"
  let ?chunk = "take ?n rest"
  from assms have n: "0 < ?n" by simp
  from less(3) have ne: "rest \<noteq> []" by auto
  show ?case
  proof (cases "k < ?n")
    case True
    have klen: "k < length ?chunk" using True less(3) by simp
    have diff: "?chunk \<noteq> take (length ?chunk) ?D"
    proof
      assume eq: "?chunk = take (length ?chunk) ?D"
      then have "length ?chunk = min (length ?D) (length ?chunk)" by (metis length_take)
      then have "length ?chunk \<le> length ?D" by linarith
      with klen have kD: "k < length ?D" by (rule less_le_trans)
      from eq have "?chunk ! k = take (length ?chunk) ?D ! k" by (rule arg_cong)
      moreover have "?chunk ! k = rest ! k" using True by (rule nth_take)
      moreover have "take (length ?chunk) ?D ! k = ?D ! k" using klen by (rule nth_take)
      ultimately have "rest ! k = ?D ! k" by (simp only:)
      with less(5) kD show False by simp
    qed
    from True have "k div ?n = 0" by simp
    then show ?thesis
      using ne diff by (simp add: verify_loop_step[OF less(2) assms] del: length_take)
  next
    case False
    then have nk: "?n \<le> k" by simp
    with less(3) have clen: "length ?chunk = ?n" by simp
    from less(4) have "length (take k ?D) = length (take k rest)" by simp
    with less(3) have Dk: "k \<le> length ?D" by (simp add: min_def split: if_splits)
    have "take ?n ?D = take ?n (take k ?D)" using nk by (simp add: min_def)
    also have "\<dots> = take ?n (take k rest)" by (simp only: less(4))
    also have "\<dots> = ?chunk" using nk by (simp add: min_def)
    finally have eq: "?chunk = take (length ?chunk) ?D" by (simp only: clen)
    let ?w1 = "call_progress pcb (bc + length ?chunk) t
                (w\<lparr>devs := (devs w)\<lparr>read_log := read_log (devs w) @ [(p, pos, length ?chunk)]\<rparr>\<rparr>)"
    have step: "verify_loop cs rest p pos bc t pcb w =
         verify_loop cs (drop ?n rest) p (pos + ?n) (bc + ?n) t pcb ?w1"
      using ne eq clen by (subst verify_loop_step[OF less(2) assms]) (simp del: length_take)
    have nodes1: "nodes (devs ?w1) p = Some (Dev dev)" using less(2) by simp
    have lt: "k - ?n < k" using n nk by simp
    have a: "k - ?n < length (drop ?n rest)" using less(3) nk by simp
    have D': "drop (pos + ?n) dev = drop ?n ?D" by (simp add: add.commute)
    have "take (k - ?n) (drop ?n ?D) = drop ?n (take k ?D)"
      using nk by (simp add: drop_take)
    also have "\<dots> = drop ?n (take k rest)" by (simp only: less(4))
    also have "\<dots> = take (k - ?n) (drop ?n rest)" using nk by (simp add: drop_take)
    finally have b: "take (k - ?n) (drop (pos + ?n) dev) = take (k - ?n) (drop ?n rest)"
      by (simp only: D')
    have c: "k - ?n < length (drop (pos + ?n) dev) \<longrightarrow>
             drop (pos + ?n) dev ! (k - ?n) \<noteq> drop ?n rest ! (k - ?n)"
    proof
      assume "k - ?n < length (drop (pos + ?n) dev)"
      with nk have kD: "k < length ?D" by (simp add: D')
      with less(5) have "?D ! k \<noteq> rest ! k" by simp
      moreover have "drop (pos + ?n) dev ! (k - ?n) = ?D ! k"
        using nk kD by (simp add: D')
      moreover have "drop ?n rest ! (k - ?n) = rest ! k"
        using nk less(3) by simp
      ultimately show "drop (pos + ?n) dev ! (k - ?n) \<noteq> drop ?n rest ! (k - ?n)" by simp
    qed
    have "k div ?n = Suc ((k - ?n) div ?n)" using n nk by (rule le_div_geq)
    then have off: "bc + ?n + (k - ?n) div ?n * ?n = bc + k div ?n * ?n" by simp
    from less(1)[OF lt nodes1 a b c, of "bc + ?n"] off
    show ?thesis by (simp only: step)
  qed
qed


lemma verify_unfold:
  assumes "open_stream src (img w) = (Inr st, s)" and "nodes (devs w) p = Some (Dev dev)"
  shows "verify_device_contents src p cs pcb scb w =
           (case verify_loop cs (content st) p 0 0 (size_opt src) pcb
                   ((call_status scb ''Starting verification'' w)
                      \<lparr>img := s, calls := calls w @ [Call_open_stream],
                        devs := (devs w)\<lparr>open_log := open_log (devs w) @ [(p, O_RDONLY)]\<rparr>\<rparr>) of
              (Inl exc, w2) \<Rightarrow> (Inl exc, w2)
            | (Inr u, w2) \<Rightarrow> (Inr (), call_status scb ''Verification completed'' w2))"
proof -
  from assms(1) have o': "open_stream src (img (call_status scb ''Starting verification'' w)) = (Inr st, s)"
    by simp
  show ?thesis
    using assms(2) by (simp add: verify_device_contents_def call_open_stream_eq[OF o'] os_open_def)
qed

lemma fst_case_loop:
  "fst (case x of (Inl exc, w2) \<Rightarrow> (Inl exc, w2) | (Inr u, w2) \<Rightarrow> (Inr (), f w2))
     = (case fst x of Inl exc \<Rightarrow> Inl exc | Inr u \<Rightarrow> Inr ())"
  by (cases x) (auto split: sum.splits)

lemma devs_case_loop:
  "devs (snd (case x of (Inl exc, w2) \<Rightarrow> (Inl exc, w2)
                | (Inr u, w2) \<Rightarrow> (Inr (), call_status scb m w2)))
     = devs (snd x)"
  by (cases x) (auto split: sum.splits)

text \<open>
  C2: with a positive chunk size, an image stream that opens and a device that opens, when
  the device and the image first differ at byte \<open>k\<close> (the first \<open>k\<close> bytes agree, and byte
  \<open>k\<close> of the device is another one, or the device ends there), \<open>verify_device_contents\<close>
  fails with \<open>VerificationError\<close> whose message names the offset \<open>k\<close> rounded down to a
  multiple of the chunk size; when the device holds exactly the bytes of the image, it
  completes without raising, whatever the length of the last chunk.
\<close>

theorem verify_reports_first_mismatch:
  assumes "0 < cs" and "open_stream src (img w) = (Inr st, s)"
    and "nodes (devs w) p = Some (Dev dev)"
  shows
    "(\<forall>k. k < length (content st) \<and> take k dev = take k (content st) \<and>
          (k < length dev \<longrightarrow> dev ! k \<noteq> content st ! k) \<longrightarrow>
        fst (verify_device_contents src p cs pcb scb w)
          = Inl (VerificationError
                   (''Verification failed at offset '' @ str_nat (k div nat cs * nat cs)))) \<and>
     (dev = content st \<longrightarrow> fst (verify_device_contents src p cs pcb scb w) = Inr ())"
proof (intro conjI allI impI)
  let ?w1 = "(call_status scb ''Starting verification'' w)
               \<lparr>img := s, calls := calls w @ [Call_open_stream],
                 devs := (devs w)\<lparr>open_log := open_log (devs w) @ [(p, O_RDONLY)]\<rparr>\<rparr>"
  have nodes1: "nodes (devs ?w1) p = Some (Dev dev)" using assms(3) by simp
  {
    fix k
    assume h: "k < length (content st) \<and> take k dev = take k (content st) \<and>
          (k < length dev \<longrightarrow> dev ! k \<noteq> content st ! k)"
    from verify_loop_mismatch[OF assms(1) nodes1, of k "content st" 0 0 "size_opt src" pcb] h
    have "fst (verify_loop cs (content st) p 0 0 (size_opt src) pcb ?w1)
            = Inl (VerificationError
                     (''Verification failed at offset '' @ str_nat (k div nat cs * nat cs)))"
      by simp
    then show "fst (verify_device_contents src p cs pcb scb w)
          = Inl (VerificationError
                   (''Verification failed at offset '' @ str_nat (k div nat cs * nat cs)))"
      by (simp add: verify_unfold[OF assms(2,3)] fst_case_loop)
  }
  {
    assume "dev = content st"
    then have "drop 0 dev = content st @ []" by simp
    from verify_loop_match[OF assms(1) nodes1 this, of 0 "size_opt src" pcb]
    have "fst (verify_loop cs (content st) p 0 0 (size_opt src) pcb ?w1) = Inr ()" by blast
    then show "fst (verify_device_contents src p cs pcb scb w) = Inr ()"
      by (simp add: verify_unfold[OF assms(2,3)] fst_case_loop)
  }
qed

text \<open>
  C9: with a positive chunk size, when the device starts with the \<open>N\<close> bytes of the image,
  \<open>verify_device_contents\<close> succeeds whatever follows them on the device, and every read
  it makes of the device ends at or before offset \<open>N\<close>.
\<close>

theorem verify_ignores_trailing_device_bytes:
  assumes "0 < cs" and "open_stream src (img w) = (Inr st, s)"
    and "nodes (devs w) p = Some (Dev (content st @ extra))"
  shows
    "fst (verify_device_contents src p cs pcb scb w) = Inr () \<and>
     (\<exists>new. read_log (devs (snd (verify_device_contents src p cs pcb scb w)))
               = read_log (devs w) @ new \<and>
            (\<forall>r \<in> set new. fst (snd r) + snd (snd r) \<le> length (content st)))"
proof -
  let ?w1 = "(call_status scb ''Starting verification'' w)
               \<lparr>img := s, calls := calls w @ [Call_open_stream],
                 devs := (devs w)\<lparr>open_log := open_log (devs w) @ [(p, O_RDONLY)]\<rparr>\<rparr>"
  have nodes1: "nodes (devs ?w1) p = Some (Dev (content st @ extra))" using assms(3) by simp
  have d: "drop 0 (content st @ extra) = content st @ extra" by simp
  from verify_loop_match[OF assms(1) nodes1 d, of 0 "size_opt src" pcb]
  obtain new where
    r: "fst (verify_loop cs (content st) p 0 0 (size_opt src) pcb ?w1) = Inr ()"
    and l: "read_log (devs (snd (verify_loop cs (content st) p 0 0 (size_opt src) pcb ?w1)))
              = read_log (devs ?w1) @ new"
    and b: "\<forall>r \<in> set new. fst (snd r) + snd (snd r) \<le> 0 + length (content st)"
    by blast
  have "fst (verify_device_contents src p cs pcb scb w) = Inr ()"
    using r by (simp add: verify_unfold[OF assms(2,3)] fst_case_loop)
  moreover have "read_log (devs (snd (verify_device_contents src p cs pcb scb w)))
               = read_log (devs w) @ new"
    using l by (simp add: verify_unfold[OF assms(2,3)] devs_case_loop)
  ultimately show ?thesis using b by auto
qed

theorem verify_reports_first_mismatch_witness:
  "(0::int) < 2 \<and>
   open_stream (memory_source [1, 2, 3, 4, 5]) ()
     = (Inr \<lparr>fname = Plain ''image.img'', content = [1, 2, 3, 4, 5]\<rparr>, ()) \<and>
   nodes (devs (one_device ''/dev/sdb'' (Dev [1, 2, 3, 9, 5, 7]))) ''/dev/sdb''
     = Some (Dev [1, 2, 3, 9, 5, 7]) \<and>
   (3::nat) < length [1, 2, 3, 4, 5 :: byte] \<and>
   take 3 [1, 2, 3, 9, 5, 7 :: byte] = take 3 [1, 2, 3, 4, 5] \<and>
   [1, 2, 3, 9, 5, 7 :: byte] ! 3 \<noteq> [1, 2, 3, 4, 5] ! 3 \<and>
   fst (verify_device_contents (memory_source [1, 2, 3, 4, 5]) ''/dev/sdb'' 2 None None
          (one_device ''/dev/sdb'' (Dev [1, 2, 3, 9, 5, 7])))
     = Inl (VerificationError ''Verification failed at offset 2'')"
proof -
  have k: "(3::nat) div nat 2 * nat 2 = 2" by simp
  from verify_reports_first_mismatch [of 2 "memory_source [1, 2, 3, 4, 5]"
          "one_device ''/dev/sdb'' (Dev [1, 2, 3, 9, 5, 7])"
          "\<lparr>fname = Plain ''image.img'', content = [1, 2, 3, 4, 5]\<rparr>" "()"
          "''/dev/sdb''" "[1, 2, 3, 9, 5, 7]" None None, THEN conjunct1, THEN spec, of 3]
  show ?thesis
    by (simp add: one_device_def memory_source_def str_nat.simps digit_def k)
qed

lemma read_log_example:
  "read_log (devs (snd (verify_device_contents (memory_source [1, 2, 3]) ''/dev/sdb'' 2 None None
          (one_device ''/dev/sdb'' (Dev [1, 2, 3, 8, 9]))))) = [(''/dev/sdb'', 0, 2), (''/dev/sdb'', 2, 1)]"
  by (simp add: verify_device_contents_def call_open_stream_def call_status_def call_progress_def
        memory_source_def one_device_def os_open_def verify_loop.simps stream_read_def fd_read_def)

theorem verify_ignores_trailing_device_bytes_witness:
  "(0::int) < 2 \<and>
   open_stream (memory_source [1, 2, 3]) ()
     = (Inr \<lparr>fname = Plain ''image.img'', content = [1, 2, 3]\<rparr>, ()) \<and>
   nodes (devs (one_device ''/dev/sdb'' (Dev [1, 2, 3, 8, 9]))) ''/dev/sdb''
     = Some (Dev ([1, 2, 3] @ [8, 9])) \<and>
   fst (verify_device_contents (memory_source [1, 2, 3]) ''/dev/sdb'' 2 None None
          (one_device ''/dev/sdb'' (Dev [1, 2, 3, 8, 9]))) = Inr () \<and>
   read_log (devs (snd (verify_device_contents (memory_source [1, 2, 3]) ''/dev/sdb'' 2 None None
          (one_device ''/dev/sdb'' (Dev [1, 2, 3, 8, 9])))))
     = [(''/dev/sdb'', 0, 2), (''/dev/sdb'', 2, 1)]"
proof -
  have "(0::int) < 2 \<and>
     open_stream (memory_source [1, 2, 3]) ()
       = (Inr \<lparr>fname = Plain ''image.img'', content = [1, 2, 3]\<rparr>, ()) \<and>
     nodes (devs (one_device ''/dev/sdb'' (Dev [1, 2, 3, 8, 9]))) ''/dev/sdb''
       = Some (Dev ([1, 2, 3] @ [8, 9])) \<and>
     fst (verify_device_contents (memory_source [1, 2, 3]) ''/dev/sdb'' 2 None None
            (one_device ''/dev/sdb'' (Dev [1, 2, 3, 8, 9]))) = Inr ()"
    using verify_ignores_trailing_device_bytes [of 2 "memory_source [1, 2, 3]"
            "one_device ''/dev/sdb'' (Dev [1, 2, 3, 8, 9])"
            "\<lparr>fname = Plain ''image.img'', content = [1, 2, 3]\<rparr>" "()"
            "''/dev/sdb''" "[8, 9]" None None]
    by (simp add: one_device_def memory_source_def)
  with read_log_example show ?thesis by blast
qed

lemma attempt_order_append [simp]:
  "attempt_order (xs @ ys) = attempt_order xs @ attempt_order ys"
  by (simp add: attempt_order_def)

lemma succeeded_append [simp]:
  "succeeded (xs @ ys) t = (succeeded xs t \<or> succeeded ys t)"
  by (auto simp: succeeded_def list_ex_iff)

lemma succeeded_other:
  "\<forall>e \<in> set new. fst e = target \<Longrightarrow> t \<noteq> target \<Longrightarrow> \<not> succeeded new t"
  by (auto simp: succeeded_def list_ex_iff)

lemma try_candidates_log:
  "\<exists>new. snd (snd (try_candidates sys target cands u log)) = log @ new \<and>
         (\<forall>e \<in> set new. fst e = target \<and> fst (snd e) \<in> set cands) \<and>
         fst (try_candidates sys target cands u log) = succeeded new target"
proof (induction cands arbitrary: u log)
  case Nil
  show ?case by (simp add: succeeded_def)
next
  case (Cons cmd cands)
  obtain r u1 where run: "subprocess_run sys cmd u = (r, u1)"
    by (cases "subprocess_run sys cmd u")
  from Cons[of u1 "log @ [(target, cmd, False)]"] obtain new where
    n: "snd (snd (try_candidates sys target cands u1 (log @ [(target, cmd, False)])))
          = log @ (target, cmd, False) # new"
       "\<forall>e \<in> set new. fst e = target \<and> fst (snd e) \<in> set cands"
       "fst (try_candidates sys target cands u1 (log @ [(target, cmd, False)])) = succeeded new target"
    by auto
  have tail: "\<forall>e \<in> set ((target, cmd, False) # new). fst e = target \<and> fst (snd e) \<in> set (cmd # cands)"
    using n(2) by auto
  have s: "succeeded ((target, cmd, False) # new) target = succeeded new target"
    by (simp add: succeeded_def)
  show ?case
  proof (cases r)
    case (Completed out)
    have "snd (snd (try_candidates sys target (cmd # cands) u log)) = log @ [(target, cmd, True)]"
      by (simp add: run Completed)
    moreover have "fst (try_candidates sys target (cmd # cands) u log)
                    = succeeded [(target, cmd, True)] target"
      by (simp add: run Completed succeeded_def)
    ultimately show ?thesis by (intro exI[of _ "[(target, cmd, True)]"]) simp
  next
    case CalledProcessError
    have "try_candidates sys target (cmd # cands) u log
            = try_candidates sys target cands u1 (log @ [(target, cmd, False)])"
      by (simp add: run CalledProcessError)
    with n tail s show ?thesis by (intro exI[of _ "(target, cmd, False) # new"]) simp
  next
    case FileNotFound
    have "try_candidates sys target (cmd # cands) u log
            = try_candidates sys target cands u1 (log @ [(target, cmd, False)])"
      by (simp add: run FileNotFound)
    with n tail s show ?thesis by (intro exI[of _ "(target, cmd, False) # new"]) simp
  qed
qed

lemma unmount_target_log:
  "\<exists>new. snd (snd (unmount_target sys target u log)) = log @ new \<and>
         (\<forall>e \<in> set new. fst e = target) \<and>
         fst (unmount_target sys target u log) = succeeded new target \<and>
         attempt_order new = [target]"
proof -
  obtain source u1 where l: "lookup_mount_source sys target u = (source, u1)"
    by (cases "lookup_mount_source sys target u")
  define rest where "rest = (case source of
                  None \<Rightarrow> []
                | Some src \<Rightarrow>
                    (if shutil_which sys ''udisksctl'' u1
                     then [[''udisksctl'', ''unmount'', ''-b'', src]] else []))
             @ [[''umount'', ''-l'', target]]"
  have rest: "\<forall>c \<in> set rest. c \<noteq> [''umount'', target]"
    by (auto simp: rest_def split: option.splits)
  have ut: "unmount_target sys target u log
              = try_candidates sys target ([''umount'', target] # rest) u1 log"
    by (simp add: unmount_target_def l rest_def)
  obtain r u2 where run: "subprocess_run sys [''umount'', target] u1 = (r, u2)"
    by (cases "subprocess_run sys [''umount'', target] u1")
  from try_candidates_log[of sys target rest u2 "log @ [(target, [''umount'', target], False)]"]
  obtain new where
    n: "snd (snd (try_candidates sys target rest u2 (log @ [(target, [''umount'', target], False)])))
          = log @ (target, [''umount'', target], False) # new"
       "\<forall>e \<in> set new. fst e = target \<and> fst (snd e) \<in> set rest"
       "fst (try_candidates sys target rest u2 (log @ [(target, [''umount'', target], False)]))
          = succeeded new target"
    by auto
  from n(2) rest have "filter (\<lambda>e. fst (snd e) = [''umount'', fst e]) new = []"
    by (auto simp: filter_empty_conv)
  then have ao: "attempt_order ((target, [''umount'', target], False) # new) = [target]"
    by (simp add: attempt_order_def)
  have s: "succeeded ((target, [''umount'', target], False) # new) target = succeeded new target"
    by (simp add: succeeded_def)
  show ?thesis
  proof (cases r)
    case (Completed out)
    show ?thesis
      by (intro exI[of _ "[(target, [''umount'', target], True)]"])
         (simp add: ut run Completed succeeded_def attempt_order_def)
  next
    case CalledProcessError
    have "unmount_target sys target u log
            = try_candidates sys target rest u2 (log @ [(target, [''umount'', target], False)])"
      by (simp add: ut run CalledProcessError)
    with n ao s show ?thesis
      by (intro exI[of _ "(target, [''umount'', target], False) # new"]) simp
  next
    case FileNotFound
    have "unmount_target sys target u log
            = try_candidates sys target rest u2 (log @ [(target, [''umount'', target], False)])"
      by (simp add: ut run FileNotFound)
    with n ao s show ?thesis
      by (intro exI[of _ "(target, [''umount'', target], False) # new"]) simp
  qed
qed


lemma succeeded_tags:
  "\<forall>e \<in> set new. fst e \<in> A \<Longrightarrow> t \<notin> A \<Longrightarrow> \<not> succeeded new t"
  by (auto simp: succeeded_def list_ex_iff)

lemma unmount_loop_log:
  "distinct targets \<Longrightarrow>
   \<exists>new. snd (snd (unmount_loop sys targets unm errs u log)) = log @ new \<and>
         (\<forall>e \<in> set new. fst e \<in> set targets) \<and>
         attempt_order new = targets \<and>
         fst (unmount_loop sys targets unm errs u log)
           = (unm @ filter (succeeded new) targets,
              errs @ filter (\<lambda>t. \<not> succeeded new t) targets)"
proof (induction targets arbitrary: unm errs u log)
  case Nil
  show ?case by (simp add: attempt_order_def)
next
  case (Cons t ts)
  from Cons.prems have d: "distinct ts" and nt: "t \<notin> set ts" by auto
  obtain ok u1 log1 where ut: "unmount_target sys t u log = (ok, u1, log1)"
    by (cases "unmount_target sys t u log")
  from unmount_target_log[of sys t u log] ut obtain new1 where
    n1: "log1 = log @ new1" "\<forall>e \<in> set new1. fst e = t" "ok = succeeded new1 t"
        "attempt_order new1 = [t]"
    by auto
  let ?unm = "if ok then unm @ [t] else unm"
  let ?errs = "if ok then errs else errs @ [t]"
  have step: "unmount_loop sys (t # ts) unm errs u log = unmount_loop sys ts ?unm ?errs u1 log1"
    by (simp add: ut)
  from Cons.IH[OF d, of ?unm ?errs u1 log1] obtain new2 where
    n2: "snd (snd (unmount_loop sys ts ?unm ?errs u1 log1)) = log1 @ new2"
        "\<forall>e \<in> set new2. fst e \<in> set ts"
        "attempt_order new2 = ts"
        "fst (unmount_loop sys ts ?unm ?errs u1 log1)
           = (?unm @ filter (succeeded new2) ts, ?errs @ filter (\<lambda>x. \<not> succeeded new2 x) ts)"
    by blast
  have st: "succeeded (new1 @ new2) t = ok"
    using succeeded_tags[OF n2(2) nt] n1(3) by simp
  have so: "succeeded (new1 @ new2) x = succeeded new2 x" if "x \<in> set ts" for x
  proof -
    from that nt have "x \<noteq> t" by auto
    from succeeded_other[OF n1(2) this] show ?thesis by simp
  qed
  have f1: "filter (succeeded (new1 @ new2)) ts = filter (succeeded new2) ts"
    by (rule filter_cong) (use so in auto)
  have f2: "filter (\<lambda>x. \<not> succeeded (new1 @ new2) x) ts = filter (\<lambda>x. \<not> succeeded new2 x) ts"
    by (rule filter_cong) (use so in auto)
  have res: "fst (unmount_loop sys (t # ts) unm errs u log)
           = (unm @ filter (succeeded (new1 @ new2)) (t # ts),
              errs @ filter (\<lambda>x. \<not> succeeded (new1 @ new2) x) (t # ts))"
    unfolding step n2(4) using st f1 f2 by simp
  have "snd (snd (unmount_loop sys (t # ts) unm errs u log)) = log1 @ new2"
    by (simp only: step n2(1))
  then have lg: "snd (snd (unmount_loop sys (t # ts) unm errs u log)) = log @ (new1 @ new2)"
    by (simp only: n1(1) append_assoc)
  have tg: "\<forall>e \<in> set (new1 @ new2). fst e \<in> set (t # ts)"
    using n1(2) n2(2) by auto
  have ao: "attempt_order (new1 @ new2) = t # ts"
    using n1(4) n2(3) by simp
  from lg tg ao res show ?case by blast
qed

lemma sorted_len_reverse_props:
  "sorted_wrt (\<lambda>s t. length t \<le> length s) (sorted_len_reverse xs) \<and>
   set (sorted_len_reverse xs) = set xs \<and>
   (distinct xs \<longrightarrow> distinct (sorted_len_reverse xs))"
proof -
  have "sorted (map length (sort_key length (rev xs)))" by (rule sorted_sort_key)
  then have "sorted_wrt (\<lambda>s t. length s \<le> length t) (sort_key length (rev xs))"
    by (simp add: sorted_map)
  then have "sorted_wrt (\<lambda>s t. length t \<le> length s) (rev (sort_key length (rev xs)))"
    by (simp add: sorted_wrt_rev)
  then show ?thesis by (simp add: sorted_len_reverse_def)
qed

lemma unmount_targets_props:
  "sorted_wrt (\<lambda>s t. length t \<le> length s) (unmount_targets sys dev) \<and>
   set (unmount_targets sys dev) = {mp \<in> set (mountpoints dev). mp \<noteq> []} \<and>
   distinct (unmount_targets sys dev)"
  using sorted_len_reverse_props[of "set_iter sys (filter (\<lambda>mp. mp \<noteq> []) (mountpoints dev))"]
  by (auto simp: unmount_targets_def set_iter_def)


lemma unmount_device_log:
  "\<exists>new. snd (snd (unmount_device sys dev u log)) = log @ new \<and>
     attempt_order new = unmount_targets sys dev \<and>
     fst (unmount_device sys dev u log)
       = (if \<forall>t \<in> set (unmount_targets sys dev). succeeded new t
          then Inr (unmount_targets sys dev)
          else Inl (UnmountError
                      (''Failed to unmount: ''
                       @ join '', '' (filter (\<lambda>t. \<not> succeeded new t) (unmount_targets sys dev)))
                      (filter (succeeded new) (unmount_targets sys dev))))"
proof (cases "unmount_targets sys dev = []")
  case True
  then show ?thesis
    by (intro exI[of _ "[]"]) (simp add: unmount_device_def attempt_order_def)
next
  case False
  have d: "distinct (unmount_targets sys dev)" using unmount_targets_props by blast
  from unmount_loop_log[OF d, of sys "[]" "[]" u log] obtain new where
    n: "snd (snd (unmount_loop sys (unmount_targets sys dev) [] [] u log)) = log @ new"
       "attempt_order new = unmount_targets sys dev"
       "fst (unmount_loop sys (unmount_targets sys dev) [] [] u log)
           = (filter (succeeded new) (unmount_targets sys dev),
              filter (\<lambda>t. \<not> succeeded new t) (unmount_targets sys dev))"
    by auto
  obtain unm errs u1 log1 where
    l: "unmount_loop sys (unmount_targets sys dev) [] [] u log = ((unm, errs), u1, log1)"
    by (cases "unmount_loop sys (unmount_targets sys dev) [] [] u log") auto
  from n l have
    e: "log1 = log @ new" "unm = filter (succeeded new) (unmount_targets sys dev)"
       "errs = filter (\<lambda>t. \<not> succeeded new t) (unmount_targets sys dev)"
    by auto
  have all: "(\<forall>t \<in> set (unmount_targets sys dev). succeeded new t) \<longleftrightarrow> errs = []"
    by (auto simp: e(3) filter_empty_conv)
  have "(\<forall>t \<in> set (unmount_targets sys dev). succeeded new t)
          \<Longrightarrow> unm = unmount_targets sys dev"
    by (simp add: e(2))
  with all e n(2) show ?thesis
    by (intro exI[of _ new]) (auto simp: unmount_device_def False l)
qed

text \<open>
  C4: \<open>unmount_device\<close> attempts every target, in the order of \<open>unmount_targets\<close>,
  whatever the outcome of the earlier ones; only then does it return the targets (when a
  command completed for each of them) or raise \<open>UnmountError\<close>, whose \<open>partial\<close> is
  exactly the list of the targets for which a command completed, and whose message lists
  the others.
\<close>

theorem unmount_collects_all_results:
  "attempt_order (snd (snd (unmount_device sys dev u []))) = unmount_targets sys dev \<and>
   fst (unmount_device sys dev u [])
     = (if \<forall>t \<in> set (unmount_targets sys dev).
              succeeded (snd (snd (unmount_device sys dev u []))) t
        then Inr (unmount_targets sys dev)
        else Inl (UnmountError
                    (''Failed to unmount: ''
                     @ join '', '' (filter (\<lambda>t. \<not> succeeded (snd (snd (unmount_device sys dev u []))) t)
                                     (unmount_targets sys dev)))
                    (filter (succeeded (snd (snd (unmount_device sys dev u []))))
                       (unmount_targets sys dev))))"
  using unmount_device_log[of sys dev u "[]"] by auto

lemma busy_example:
  "unmount_device (busy_system ''/mnt/a/b'') (usb_stick [''/mnt/a'', ''/mnt/a/b'', ''/mnt/c'']) () []
     = (Inl (UnmountError ''Failed to unmount: /mnt/a/b'' [''/mnt/a'', ''/mnt/c'']), (),
        [(''/mnt/a/b'', [''umount'', ''/mnt/a/b''], False),
         (''/mnt/a/b'', [''umount'', ''-l'', ''/mnt/a/b''], False),
         (''/mnt/a'', [''umount'', ''/mnt/a''], True),
         (''/mnt/c'', [''umount'', ''/mnt/c''], True)])"
  by (simp add: unmount_device_def unmount_targets_def sorted_len_reverse_def set_iter_def
        usb_stick_def busy_system_def unmount_target_def lookup_mount_source_def)

theorem unmount_collects_all_results_witness:
  "attempt_order (snd (snd (unmount_device (busy_system ''/mnt/a/b'')
       (usb_stick [''/mnt/a'', ''/mnt/a/b'', ''/mnt/c'']) () [])))
     = [''/mnt/a/b'', ''/mnt/a'', ''/mnt/c''] \<and>
   unmount_targets (busy_system ''/mnt/a/b'') (usb_stick [''/mnt/a'', ''/mnt/a/b'', ''/mnt/c''])
     = [''/mnt/a/b'', ''/mnt/a'', ''/mnt/c''] \<and>
   \<not> succeeded (snd (snd (unmount_device (busy_system ''/mnt/a/b'')
       (usb_stick [''/mnt/a'', ''/mnt/a/b'', ''/mnt/c'']) () []))) ''/mnt/a/b'' \<and>
   fst (unmount_device (busy_system ''/mnt/a/b'')
       (usb_stick [''/mnt/a'', ''/mnt/a/b'', ''/mnt/c'']) () [])
     = Inl (UnmountError ''Failed to unmount: /mnt/a/b'' [''/mnt/a'', ''/mnt/c''])"
proof -
  have t: "unmount_targets (busy_system ''/mnt/a/b'') (usb_stick [''/mnt/a'', ''/mnt/a/b'', ''/mnt/c''])
     = [''/mnt/a/b'', ''/mnt/a'', ''/mnt/c'']"
    by (simp add: unmount_targets_def sorted_len_reverse_def set_iter_def usb_stick_def
          busy_system_def)
  have s: "\<not> succeeded (snd (snd (unmount_device (busy_system ''/mnt/a/b'')
       (usb_stick [''/mnt/a'', ''/mnt/a/b'', ''/mnt/c'']) () []))) ''/mnt/a/b''"
    by (simp add: busy_example succeeded_def)
  from unmount_collects_all_results [of "busy_system ''/mnt/a/b''"
         "usb_stick [''/mnt/a'', ''/mnt/a/b'', ''/mnt/c'']" "()"] t s
  show ?thesis
    by (simp add: busy_example succeeded_def)
qed

lemma three_nested:
  assumes "a \<noteq> []" "x \<noteq> []" "y \<noteq> []"
    and "set ts = {a, a @ x, a @ x @ y}" and "distinct ts"
    and "sorted_wrt (\<lambda>s t. length t \<le> length s) ts"
  shows "ts = [a @ x @ y, a @ x, a]"
proof -
  let ?ys = "[a, a @ x, a @ x @ y]"
  have inj: "inj_on length (set (rev ts) \<union> set ?ys)"
    using assms(1-4) by (auto simp: inj_on_def)
  then have inj': "inj_on length (set (rev ts))" by (rule inj_on_subset) blast
  have "sorted_wrt (\<lambda>s t. length s \<le> length t) (rev ts)"
    using assms(6) by (simp add: sorted_wrt_rev)
  then have s1: "sorted (map length (rev ts))" by (simp add: sorted_map)
  have d1: "distinct (map length (rev ts))"
    using assms(5) inj' by (simp add: distinct_map)
  have s2: "sorted (map length ?ys)" by simp
  have d2: "distinct (map length ?ys)" using assms(1-3) by simp
  have st: "set (map length (rev ts)) = set (map length ?ys)"
    using assms(4) by simp
  from sorted_distinct_set_unique[OF s1 d1 s2 d2 st]
  have "map length (rev ts) = map length ?ys" .
  with inj have "rev ts = ?ys" by (simp only: inj_on_map_eq_map)
  then have "rev (rev ts) = rev ?ys" by (rule arg_cong)
  then show ?thesis by simp
qed

text \<open>
  C5: the targets are the non-empty mountpoints, each once, and they are attempted in
  order of non-increasing length, whatever the iteration order of the set; for the
  mountpoints \<open>{a, a/b, a/b/c}\<close> (any \<open>a\<close> and any non-empty extensions) the order is
  \<open>a/b/c\<close>, \<open>a/b\<close>, \<open>a\<close>.
\<close>

theorem unmount_longest_first:
  "attempt_order (snd (snd (unmount_device sys dev u []))) = unmount_targets sys dev \<and>
   sorted_wrt (\<lambda>s t. length t \<le> length s) (unmount_targets sys dev) \<and>
   set (unmount_targets sys dev) = {mp \<in> set (mountpoints dev). mp \<noteq> []} \<and>
   distinct (unmount_targets sys dev) \<and>
   (\<forall>a x y. a \<noteq> [] \<and> x \<noteq> [] \<and> y \<noteq> [] \<and> set (mountpoints dev) = {a, a @ x, a @ x @ y} \<longrightarrow>
      unmount_targets sys dev = [a @ x @ y, a @ x, a])"
proof -
  note p = unmount_targets_props[of sys dev]
  have "unmount_targets sys dev = [a @ x @ y, a @ x, a]"
    if h: "a \<noteq> [] \<and> x \<noteq> [] \<and> y \<noteq> [] \<and> set (mountpoints dev) = {a, a @ x, a @ x @ y}"
    for a x y
  proof -
    from h p have "set (unmount_targets sys dev) = {a, a @ x, a @ x @ y}" by auto
    with h p show ?thesis by (intro three_nested) auto
  qed
  moreover have "attempt_order (snd (snd (unmount_device sys dev u []))) = unmount_targets sys dev"
    using unmount_device_log[of sys dev u "[]"] by auto
  ultimately show ?thesis using p by blast
qed

theorem unmount_longest_first_witness:
  "''/mnt/a'' \<noteq> [] \<and> ''/b'' \<noteq> [] \<and> ''/c'' \<noteq> [] \<and>
   set (mountpoints (usb_stick [''/mnt/a/b'', ''/mnt/a'', ''/mnt/a/b/c'', ''/mnt/a'']))
     = {''/mnt/a'', ''/mnt/a'' @ ''/b'', ''/mnt/a'' @ ''/b'' @ ''/c''} \<and>
   unmount_targets (busy_system ''/mnt/a/b'')
       (usb_stick [''/mnt/a/b'', ''/mnt/a'', ''/mnt/a/b/c'', ''/mnt/a''])
     = [''/mnt/a/b/c'', ''/mnt/a/b'', ''/mnt/a''] \<and>
   attempt_order (snd (snd (unmount_device (busy_system ''/mnt/a/b'')
       (usb_stick [''/mnt/a/b'', ''/mnt/a'', ''/mnt/a/b/c'', ''/mnt/a'']) () [])))
     = [''/mnt/a/b/c'', ''/mnt/a/b'', ''/mnt/a'']"
proof -
  have m: "set (mountpoints (usb_stick [''/mnt/a/b'', ''/mnt/a'', ''/mnt/a/b/c'', ''/mnt/a'']))
     = {''/mnt/a'', ''/mnt/a'' @ ''/b'', ''/mnt/a'' @ ''/b'' @ ''/c''}"
    by (auto simp: usb_stick_def)
  note t = unmount_longest_first [of "busy_system ''/mnt/a/b''"
         "usb_stick [''/mnt/a/b'', ''/mnt/a'', ''/mnt/a/b/c'', ''/mnt/a'']" "()"]
  from t have o: "attempt_order (snd (snd (unmount_device (busy_system ''/mnt/a/b'')
       (usb_stick [''/mnt/a/b'', ''/mnt/a'', ''/mnt/a/b/c'', ''/mnt/a'']) () [])))
     = unmount_targets (busy_system ''/mnt/a/b'')
         (usb_stick [''/mnt/a/b'', ''/mnt/a'', ''/mnt/a/b/c'', ''/mnt/a''])"
    by (rule conjunct1)
  from t have "\<forall>a x y. a \<noteq> [] \<and> x \<noteq> [] \<and> y \<noteq> [] \<and>
      set (mountpoints (usb_stick [''/mnt/a/b'', ''/mnt/a'', ''/mnt/a/b/c'', ''/mnt/a'']))
        = {a, a @ x, a @ x @ y} \<longrightarrow>
      unmount_targets (busy_system ''/mnt/a/b'')
          (usb_stick [''/mnt/a/b'', ''/mnt/a'', ''/mnt/a/b/c'', ''/mnt/a''])
        = [a @ x @ y, a @ x, a]"
    by blast
  from this[THEN spec, of "''/mnt/a''", THEN spec, of "''/b''", THEN spec, of "''/c''"] m
  have u: "unmount_targets (busy_system ''/mnt/a/b'')
          (usb_stick [''/mnt/a/b'', ''/mnt/a'', ''/mnt/a/b/c'', ''/mnt/a''])
        = [''/mnt/a/b/c'', ''/mnt/a/b'', ''/mnt/a'']"
    by simp
  from m u o show ?thesis by simp
qed

lemma verify_loop_calls:
  "calls (snd (verify_loop cs source fd pos bc t pcb w)) = calls w"
proof (induction cs source fd pos bc t pcb w rule: verify_loop.induct)
  case (1 cs source fd pos bc t pcb w)
  show ?case
    apply (subst verify_loop.simps)
    using 1 by (auto simp: fd_read_def split: prod.splits)
qed

lemma stream_calls_count:
  "count_list (calls (snd (stream_image_to_device src p cs pcb scb dry w))) Call_cleanup
     = count_list (calls w) Call_cleanup"
proof (cases "0 < cs")
  case True
  then have "calls (snd (stream_image_to_device src p cs pcb scb dry w))
               = calls w @ [Call_open_stream]"
    by (rule stream_calls)
  then show ?thesis by simp
next
  case False
  then show ?thesis by (simp add: stream_image_to_device_def)
qed

lemma verify_calls:
  "calls (snd (verify_device_contents src p cs pcb scb w)) = calls w @ [Call_open_stream]"
proof -
  obtain r s where o: "open_stream src (img w) = (r, s)" by (cases "open_stream src (img w)")
  then have o': "open_stream src (img (call_status scb ''Starting verification'' w)) = (r, s)"
    by simp
  show ?thesis
    by (auto simp: verify_device_contents_def call_open_stream_eq[OF o'] os_open_def
          verify_loop_calls
        split: sum.splits pyexn.splits prod.splits option.splits dev_node.splits
        dest!: arg_cong[where f="\<lambda>x. calls (snd x)"])
qed

lemma flash_try_calls_count:
  "count_list (calls (snd (flash_try src p v cs pcb vpcb scb dry w))) Call_cleanup
     = count_list (calls w) Call_cleanup"
proof -
  obtain r w1 where s: "stream_image_to_device src p cs pcb scb dry w = (r, w1)"
    by (cases "stream_image_to_device src p cs pcb scb dry w")
  from stream_calls_count[of src p cs pcb scb dry w] s
  have c1: "count_list (calls w1) Call_cleanup = count_list (calls w) Call_cleanup" by simp
  show ?thesis
  proof (cases r)
    case (Inl exc)
    then show ?thesis using c1 by (simp add: flash_try_def s)
  next
    case (Inr written)
    let ?vp = "case vpcb of Some f \<Rightarrow> Some f | None \<Rightarrow> pcb"
    obtain r2 w2 where vr: "verify_device_contents src p cs ?vp scb w1 = (r2, w2)"
      by (cases "verify_device_contents src p cs ?vp scb w1")
    from verify_calls[of src p cs ?vp scb w1] vr
    have "calls w2 = calls w1 @ [Call_open_stream]" by simp
    with c1 have c2: "count_list (calls w2) Call_cleanup = count_list (calls w) Call_cleanup"
      by simp
    show ?thesis
      using c1 c2 by (cases r2) (simp_all add: flash_try_def s Inr vr)
  qed
qed

lemma run_cleanup_swallows:
  "\<forall>cb \<in> set cbs. \<forall>s e. fst (cb s) = Some e \<longrightarrow> is_Exception e \<Longrightarrow>
   fst (run_cleanup cbs s) = None"
proof (induction cbs arbitrary: s)
  case Nil
  show ?case by simp
next
  case (Cons cb cbs)
  obtain r s1 where c: "cb s = (r, s1)" by (cases "cb s")
  from Cons.prems have rest: "\<forall>cb \<in> set cbs. \<forall>s e. fst (cb s) = Some e \<longrightarrow> is_Exception e"
    by simp
  show ?case
  proof (cases r)
    case None
    then show ?thesis using Cons.IH[OF rest] by (simp add: c)
  next
    case (Some e)
    with c have "fst (cb s) = Some e" by simp
    with Cons.prems have "is_Exception e" by (metis list.set_intros(1))
    then show ?thesis using Cons.IH[OF rest] by (simp add: c Some)
  qed
qed

lemma flash_source_cleanup:
  assumes "fst (cleanup src (img (snd (flash_try src p v cs pcb vpcb scb dry w)))) = None"
  shows "fst (flash_source src p v cs pcb vpcb scb dry w)
           = fst (flash_try src p v cs pcb vpcb scb dry w) \<and>
         count_list (calls (snd (flash_source src p v cs pcb vpcb scb dry w))) Call_cleanup
           = Suc (count_list (calls w) Call_cleanup) \<and>
         img (snd (flash_source src p v cs pcb vpcb scb dry w))
           = snd (cleanup src (img (snd (flash_try src p v cs pcb vpcb scb dry w))))"
proof -
  obtain r w1 where t: "flash_try src p v cs pcb vpcb scb dry w = (r, w1)"
    by (cases "flash_try src p v cs pcb vpcb scb dry w")
  from flash_try_calls_count[of src p v cs pcb vpcb scb dry w] t
  have c: "count_list (calls w1) Call_cleanup = count_list (calls w) Call_cleanup" by simp
  obtain e s where cl: "cleanup src (img w1) = (e, s)" by (cases "cleanup src (img w1)")
  with assms t have "e = None" by simp
  with c cl show ?thesis by (simp add: flash_source_def flash_finally_def t)
qed

lemma flash_source_cleanup_count:
  "count_list (calls (snd (flash_source src p v cs pcb vpcb scb dry w))) Call_cleanup
     = Suc (count_list (calls w) Call_cleanup)"
proof -
  obtain r w1 where t: "flash_try src p v cs pcb vpcb scb dry w = (r, w1)"
    by (cases "flash_try src p v cs pcb vpcb scb dry w")
  from flash_try_calls_count[of src p v cs pcb vpcb scb dry w] t
  have c: "count_list (calls w1) Call_cleanup = count_list (calls w) Call_cleanup" by simp
  then show ?thesis
    by (auto simp: flash_source_def flash_finally_def t split: prod.splits option.splits)
qed


lemma zip_cleanup_quiet: "fst (zip_cleanup n f t) = None"
  by (simp add: zip_cleanup_def split: prod.splits option.splits)

lemma zip_cleanup_no_exn [simp]: "zip_cleanup n f t \<noteq> (Some e, x)"
  using zip_cleanup_quiet[of n f t] by auto

lemma prepare_cleanup_quiet:
  "prepare_image_source lib ip s = (Inr src, s1) \<Longrightarrow> fst (cleanup src t) = None"
  by (auto simp: prepare_image_source_def Let_def mkdtemp_def zip_cleanup_quiet
        split: option.splits node.splits if_splits list.splits prod.splits)

text \<open>
  C8: the \<open>try\<close>/\<open>finally\<close> of \<open>flash_image\<close> calls the source's \<open>cleanup\<close> exactly once,
  whatever the outcome of the write and of the verification. When \<open>cleanup\<close> is
  \<open>run_cleanup\<close> over callbacks that raise instances of \<open>Exception\<close> only, every callback
  is run, their exceptions are passed over, and the outcome of the flash is the outcome of
  the try block: the count written, or the error of the write or of the verification. For
  every source \<open>prepare_image_source\<close> returns, \<open>flash_image\<close> gives the outcome of the
  try block and makes that one call.
\<close>

theorem cleanup_runs_once_and_never_masks:
  "(\<forall>cbs. cleanup src = run_cleanup cbs \<and>
          (\<forall>cb \<in> set cbs. \<forall>s e. fst (cb s) = Some e \<longrightarrow> is_Exception e) \<longrightarrow>
      fst (flash_source src p v cs pcb vpcb scb dry w)
        = fst (flash_try src p v cs pcb vpcb scb dry w) \<and>
      img (snd (flash_source src p v cs pcb vpcb scb dry w))
        = snd (run_cleanup cbs (img (snd (flash_try src p v cs pcb vpcb scb dry w))))) \<and>
   count_list (calls (snd (flash_source src p v cs pcb vpcb scb dry w))) Call_cleanup
     = Suc (count_list (calls w) Call_cleanup) \<and>
   (\<forall>isrc s1. prepare_image_source lib ip (img w0) = (Inr isrc, s1) \<longrightarrow>
      fst (flash_image lib ip p v cs pcb vpcb scb dry w0)
        = fst (flash_try isrc p v cs pcb vpcb scb dry (w0\<lparr>img := s1\<rparr>)) \<and>
      count_list (calls (snd (flash_image lib ip p v cs pcb vpcb scb dry w0))) Call_cleanup
        = Suc (count_list (calls w0) Call_cleanup))"
proof (intro conjI allI impI)
  fix cbs
  assume h: "cleanup src = run_cleanup cbs \<and>
          (\<forall>cb \<in> set cbs. \<forall>s e. fst (cb s) = Some e \<longrightarrow> is_Exception e)"
  then have q: "fst (cleanup src (img (snd (flash_try src p v cs pcb vpcb scb dry w)))) = None"
    by (simp add: run_cleanup_swallows)
  from flash_source_cleanup[OF q]
  show "fst (flash_source src p v cs pcb vpcb scb dry w)
        = fst (flash_try src p v cs pcb vpcb scb dry w)"
    by blast
  from flash_source_cleanup[OF q] h
  show "img (snd (flash_source src p v cs pcb vpcb scb dry w))
        = snd (run_cleanup cbs (img (snd (flash_try src p v cs pcb vpcb scb dry w))))"
    by simp
next
  show "count_list (calls (snd (flash_source src p v cs pcb vpcb scb dry w))) Call_cleanup
     = Suc (count_list (calls w) Call_cleanup)"
    by (rule flash_source_cleanup_count)
next
  fix isrc s1
  assume pr: "prepare_image_source lib ip (img w0) = (Inr isrc, s1)"
  have fi: "flash_image lib ip p v cs pcb vpcb scb dry w0
              = flash_source isrc p v cs pcb vpcb scb dry (w0\<lparr>img := s1\<rparr>)"
    by (simp add: flash_image_def pr)
  have q: "fst (cleanup isrc (img (snd (flash_try isrc p v cs pcb vpcb scb dry (w0\<lparr>img := s1\<rparr>)))))
             = None"
    by (rule prepare_cleanup_quiet[OF pr])
  from flash_source_cleanup[OF q]
  show "fst (flash_image lib ip p v cs pcb vpcb scb dry w0)
        = fst (flash_try isrc p v cs pcb vpcb scb dry (w0\<lparr>img := s1\<rparr>))"
    by (simp add: fi)
  from flash_source_cleanup_count[of isrc p v cs pcb vpcb scb dry "w0\<lparr>img := s1\<rparr>"]
  show "count_list (calls (snd (flash_image lib ip p v cs pcb vpcb scb dry w0))) Call_cleanup
        = Suc (count_list (calls w0) Call_cleanup)"
    by (simp add: fi)
qed

lemma failing_cleanup_example:
  "flash_source (failing_cleanup_source [1, 2, 3]) ''/dev/sdb'' True 2 None None None False
       (one_device ''/dev/sdb'' (Dev [0, 0, 0, 0]))
     = (Inr 3,
        \<lparr>img = (),
         devs = \<lparr>nodes = [''/dev/sdb'' \<mapsto> Dev [1, 2, 3, 0]],
                 open_log = [(''/dev/sdb'', O_RDWR_SYNC), (''/dev/sdb'', O_RDONLY)],
                 read_log = [(''/dev/sdb'', 0, 2), (''/dev/sdb'', 2, 1)]\<rparr>,
         out = [], calls = [Call_open_stream, Call_open_stream, Call_cleanup]\<rparr>)"
  by (simp add: flash_source_def flash_finally_def flash_try_def failing_cleanup_source_def
        stream_image_to_device_def verify_device_contents_def call_open_stream_def
        call_status_def call_progress_def memory_source_def one_device_def os_open_def
        write_loop.simps verify_loop.simps stream_read_def fd_read_def fd_write_def)

lemma zip_flash_example:
  "fst (flash_image example_library ''/home/u/disk.ZIP'' ''/dev/sdb'' True 2 None None None False
       (example_world [0, 0, 0, 0])) = Inr 3 \<and>
   calls (snd (flash_image example_library ''/home/u/disk.ZIP'' ''/dev/sdb'' True 2 None None None False
       (example_world [0, 0, 0, 0]))) = [Call_open_stream, Call_open_stream, Call_cleanup] \<and>
   img (snd (flash_image example_library ''/home/u/disk.ZIP'' ''/dev/sdb'' True 2 None None None False
       (example_world [0, 0, 0, 0])))
     = \<lparr>entries = [''/home/u/disk.ZIP'' \<mapsto> Regular [80, 75]], temps = [None],
        extractions = [InTemp 0 ''disk.img'']\<rparr>"
  by (simp add: flash_image_def prepare_image_source_def example_library_def example_fs_def
        example_world_def image_zip_def lower_def lower_char_def mkdtemp_def
        flash_source_def flash_finally_def flash_try_def
        stream_image_to_device_def verify_device_contents_def call_open_stream_def
        call_status_def call_progress_def os_open_def
        write_loop.simps verify_loop.simps stream_read_def fd_read_def fd_write_def
        zip_make_stream_def ensure_extracted_def temp_dir_of_def zip_cleanup_def
        unlink_def rmdir_def)

theorem cleanup_runs_once_and_never_masks_witness:
  "cleanup (failing_cleanup_source [1, 2, 3]) = run_cleanup [\<lambda>s. (Some (OSError enotempty), s)] \<and>
   fst ((\<lambda>s. (Some (OSError enotempty), s)) ()) = Some (OSError enotempty) \<and>
   is_Exception (OSError enotempty) \<and>
   fst (flash_source (failing_cleanup_source [1, 2, 3]) ''/dev/sdb'' True 2 None None None False
          (one_device ''/dev/sdb'' (Dev [0, 0, 0, 0]))) = Inr 3 \<and>
   fst (flash_try (failing_cleanup_source [1, 2, 3]) ''/dev/sdb'' True 2 None None None False
          (one_device ''/dev/sdb'' (Dev [0, 0, 0, 0]))) = Inr 3 \<and>
   count_list (calls (snd (flash_source (failing_cleanup_source [1, 2, 3]) ''/dev/sdb'' True 2
          None None None False (one_device ''/dev/sdb'' (Dev [0, 0, 0, 0]))))) Call_cleanup = 1 \<and>
   fst (prepare_image_source example_library ''/home/u/disk.ZIP'' (img (example_world [0, 0, 0, 0])))
     \<noteq> Inl (FlashError ''ZIP archives must contain exactly one image file'') \<and>
   fst (flash_image example_library ''/home/u/disk.ZIP'' ''/dev/sdb'' True 2 None None None False
          (example_world [0, 0, 0, 0])) = Inr 3 \<and>
   count_list (calls (snd (flash_image example_library ''/home/u/disk.ZIP'' ''/dev/sdb'' True 2
          None None None False (example_world [0, 0, 0, 0])))) Call_cleanup = 1"
proof -
  have c: "cleanup (failing_cleanup_source [1, 2, 3])
             = run_cleanup [\<lambda>s. (Some (OSError enotempty), s)]"
    by (simp add: failing_cleanup_source_def)
  have e: "\<forall>cb \<in> set [\<lambda>s::unit. (Some (OSError enotempty), s)].
             \<forall>s e. fst (cb s) = Some e \<longrightarrow> is_Exception e"
    by auto
  note t = cleanup_runs_once_and_never_masks [of "failing_cleanup_source [1, 2, 3]" "''/dev/sdb''"
      True 2 None None None False "one_device ''/dev/sdb'' (Dev [0, 0, 0, 0])"
      example_library "''/home/u/disk.ZIP''" "example_world [0, 0, 0, 0]"]
  from t c e have
    "fst (flash_source (failing_cleanup_source [1, 2, 3]) ''/dev/sdb'' True 2 None None None False
          (one_device ''/dev/sdb'' (Dev [0, 0, 0, 0])))
       = fst (flash_try (failing_cleanup_source [1, 2, 3]) ''/dev/sdb'' True 2 None None None False
          (one_device ''/dev/sdb'' (Dev [0, 0, 0, 0])))"
    by blast
  moreover have p: "fst (prepare_image_source example_library ''/home/u/disk.ZIP''
                      (img (example_world [0, 0, 0, 0])))
     \<noteq> Inl (FlashError ''ZIP archives must contain exactly one image file'')"
    by (simp add: prepare_image_source_def example_library_def example_fs_def example_world_def
          image_zip_def lower_def lower_char_def mkdtemp_def)
  ultimately show ?thesis
    using c failing_cleanup_example zip_flash_example by simp
qed

lemma prepare_zip_unfold:
  assumes "entries s (path_str (Path lib ip)) = Some (Regular raw)"
    and "path_suffixes (Path lib ip) \<noteq> []"
    and "lower (last (path_suffixes (Path lib ip))) = ''.zip''"
    and "infolist lib raw = Some infos"
  shows "prepare_image_source lib ip s =
     (case filter (\<lambda>info. \<not> is_dir info) infos of
        [entry] \<Rightarrow>
          (Inr \<lparr>open_stream =
                  zip_make_stream lib (path_str (Path lib ip)) entry (length (temps s))
                    (base_name entry),
                size_opt = Some (file_size entry),
                display_name = path_name (Path lib ip) @ '' -> '' @ filename entry,
                cleanup = run_cleanup [zip_cleanup (length (temps s)) (base_name entry)]\<rparr>,
           s\<lparr>temps := temps s @ [Some Map.empty]\<rparr>)
      | _ \<Rightarrow> (Inl (FlashError ''ZIP archives must contain exactly one image file''), s))"
proof -
  from assms(2,3) have l: "last (map lower (path_suffixes (Path lib ip))) = ''.zip''"
    by (simp add: last_map)
  show ?thesis
    using assms(1,2,4) l
    by (simp add: prepare_image_source_def Let_def mkdtemp_def split: list.splits)
qed

lemma zip_first_open:
  assumes "entries s (path_str (Path lib ip)) = Some (Regular raw)"
    and "infolist lib raw = Some infos"
  shows "zip_make_stream lib (path_str (Path lib ip)) entry (length (temps s)) f
           (s\<lparr>temps := temps s @ [Some Map.empty]\<rparr>)
         = (Inr \<lparr>fname = InTemp (length (temps s)) f, content = payload entry\<rparr>,
            s\<lparr>temps := temps s @ [Some [f \<mapsto> payload entry]],
              extractions := extractions s @ [InTemp (length (temps s)) f]\<rparr>)"
  using assms
  by (simp add: zip_make_stream_def ensure_extracted_def temp_dir_of_def)

lemma zip_later_open:
  "zip_make_stream lib p entry (length (temps s)) f
           (s\<lparr>temps := temps s @ [Some [f \<mapsto> b]], extractions := x\<rparr>)
         = (Inr \<lparr>fname = InTemp (length (temps s)) f, content = b\<rparr>,
            s\<lparr>temps := temps s @ [Some [f \<mapsto> b]], extractions := x\<rparr>)"
  by (simp add: zip_make_stream_def ensure_extracted_def temp_dir_of_def)

text \<open>
  C6: for an image path whose last suffix is \<open>.zip\<close> in any letter case, naming a regular
  file that \<open>zipfile\<close> reads as an archive: \<open>prepare_image_source\<close> fails (with the
  \<open>FlashError\<close> "ZIP archives must contain exactly one image file", the error of the source)
  unless the archive has exactly one entry that is not a directory; with one such entry the
  source's size is the entry's \<open>file_size\<close> and nothing is extracted yet; the first
  \<open>open_stream\<close> extracts the entry into the new temporary directory, once, and gives a
  stream on the extracted file; from then on \<open>open_stream\<close> gives the same stream on the
  same path and leaves the file system, the log of extractions included, as it is.
\<close>

theorem zip_source_extracted_once:
  assumes "entries s (path_str (Path lib ip)) = Some (Regular raw)"
    and "path_suffixes (Path lib ip) \<noteq> []"
    and "lower (last (path_suffixes (Path lib ip))) = ''.zip''"
    and "infolist lib raw = Some infos"
  shows
    "(length (filter (\<lambda>info. \<not> is_dir info) infos) \<noteq> 1 \<longrightarrow>
        prepare_image_source lib ip s
          = (Inl (FlashError ''ZIP archives must contain exactly one image file''), s)) \<and>
     (\<forall>entry. filter (\<lambda>info. \<not> is_dir info) infos = [entry] \<longrightarrow>
        (\<exists>src s1. prepare_image_source lib ip s = (Inr src, s1) \<and>
           size_opt src = Some (file_size entry) \<and>
           extractions s1 = extractions s \<and>
           (\<exists>st s2. open_stream src s1 = (Inr st, s2) \<and>
              fname st = InTemp (length (temps s)) (base_name entry) \<and>
              content st = payload entry \<and>
              extractions s2 = extractions s @ [InTemp (length (temps s)) (base_name entry)] \<and>
              open_stream src s2 = (Inr st, s2))))"
proof (intro conjI allI impI)
  assume "length (filter (\<lambda>info. \<not> is_dir info) infos) \<noteq> 1"
  then show "prepare_image_source lib ip s
          = (Inl (FlashError ''ZIP archives must contain exactly one image file''), s)"
    by (auto simp: prepare_zip_unfold[OF assms] split: list.splits)
next
  fix entry
  assume one: "filter (\<lambda>info. \<not> is_dir info) infos = [entry]"
  let ?n = "length (temps s)"
  let ?src = "\<lparr>open_stream =
                  zip_make_stream lib (path_str (Path lib ip)) entry ?n (base_name entry),
                size_opt = Some (file_size entry),
                display_name = path_name (Path lib ip) @ '' -> '' @ filename entry,
                cleanup = run_cleanup [zip_cleanup ?n (base_name entry)]\<rparr>"
  let ?s1 = "s\<lparr>temps := temps s @ [Some Map.empty]\<rparr>"
  let ?st = "\<lparr>fname = InTemp ?n (base_name entry), content = payload entry\<rparr>"
  let ?s2 = "s\<lparr>temps := temps s @ [Some [base_name entry \<mapsto> payload entry]],
              extractions := extractions s @ [InTemp ?n (base_name entry)]\<rparr>"
  have p: "prepare_image_source lib ip s = (Inr ?src, ?s1)"
    by (simp add: prepare_zip_unfold[OF assms] one)
  have o1: "open_stream ?src ?s1 = (Inr ?st, ?s2)"
    using zip_first_open[OF assms(1,4)] by simp
  have o2: "open_stream ?src ?s2 = (Inr ?st, ?s2)"
    using zip_later_open[where lib=lib and p="path_str (Path lib ip)" and entry=entry and s=s
            and f="base_name entry" and b="payload entry"]
    by simp
  show "\<exists>src s1. prepare_image_source lib ip s = (Inr src, s1) \<and>
           size_opt src = Some (file_size entry) \<and>
           extractions s1 = extractions s \<and>
           (\<exists>st s2. open_stream src s1 = (Inr st, s2) \<and>
              fname st = InTemp (length (temps s)) (base_name entry) \<and>
              content st = payload entry \<and>
              extractions s2 = extractions s @ [InTemp (length (temps s)) (base_name entry)] \<and>
              open_stream src s2 = (Inr st, s2))"
    apply (rule exI[of _ ?src], rule exI[of _ ?s1])
    apply (intro conjI)
       apply (rule p)
      apply simp
     apply simp
    apply (rule exI[of _ ?st], rule exI[of _ ?s2])
    using o1 o2 by simp
qed

theorem zip_source_extracted_once_witness:
  "entries example_fs (path_str (Path example_library ''/home/u/disk.ZIP'')) = Some (Regular [80, 75]) \<and>
   path_suffixes (Path example_library ''/home/u/disk.ZIP'') \<noteq> [] \<and>
   lower (last (path_suffixes (Path example_library ''/home/u/disk.ZIP''))) = ''.zip'' \<and>
   infolist example_library [80, 75] = Some image_zip \<and>
   filter (\<lambda>info. \<not> is_dir info) image_zip = [image_zip ! 1] \<and>
   (\<exists>src s1. prepare_image_source example_library ''/home/u/disk.ZIP'' example_fs = (Inr src, s1) \<and>
      size_opt src = Some 3 \<and>
      extractions s1 = [] \<and>
      (\<exists>st s2. open_stream src s1 = (Inr st, s2) \<and>
         fname st = InTemp 0 ''disk.img'' \<and>
         content st = [1, 2, 3] \<and>
         extractions s2 = [InTemp 0 ''disk.img''] \<and>
         open_stream src s2 = (Inr st, s2)))"
proof -
  have h1: "entries example_fs (path_str (Path example_library ''/home/u/disk.ZIP''))
              = Some (Regular [80, 75])"
    by (simp add: example_fs_def example_library_def)
  have h2: "path_suffixes (Path example_library ''/home/u/disk.ZIP'') \<noteq> []"
    by (simp add: example_library_def)
  have h3: "lower (last (path_suffixes (Path example_library ''/home/u/disk.ZIP''))) = ''.zip''"
    by (simp add: example_library_def lower_def lower_char_def)
  have h4: "infolist example_library [80, 75] = Some image_zip"
    by (simp add: example_library_def)
  have f: "filter (\<lambda>info. \<not> is_dir info) image_zip = [image_zip ! 1]"
    by (simp add: image_zip_def)
  have v: "file_size (image_zip ! 1) = 3" "base_name (image_zip ! 1) = ''disk.img''"
    "payload (image_zip ! 1) = [1, 2, 3]" "extractions example_fs = []"
    "length (temps example_fs) = 0"
    by (simp_all add: image_zip_def example_fs_def)
  from zip_source_extracted_once[OF h1 h2 h3 h4, THEN conjunct2, THEN spec, of "image_zip ! 1"] f
  have "\<exists>src s1. prepare_image_source example_library ''/home/u/disk.ZIP'' example_fs = (Inr src, s1) \<and>
      size_opt src = Some 3 \<and>
      extractions s1 = [] \<and>
      (\<exists>st s2. open_stream src s1 = (Inr st, s2) \<and>
         fname st = InTemp 0 ''disk.img'' \<and>
         content st = [1, 2, 3] \<and>
         extractions s2 = [InTemp 0 ''disk.img''] \<and>
         open_stream src s2 = (Inr st, s2))"
    by (simp only: v append_Nil simp_thms)
  with h1 h2 h3 h4 f show ?thesis by (intro conjI)
qed

lemma out_extends_refl [simp]: "out_extends P w w"
  by (simp add: out_extends_def)

lemma out_extends_same: "out w' = out w \<Longrightarrow> out_extends P w w'"
  by (simp add: out_extends_def)

lemma out_extends_trans:
  "out_extends P w w1 \<Longrightarrow> out_extends P w1 w2 \<Longrightarrow> out_extends P w w2"
  by (auto simp: out_extends_def)

lemma call_status_out:
  "(\<And>f m. scb = Some f \<Longrightarrow> P (f m)) \<Longrightarrow> out_extends P w (call_status scb msg w)"
  by (auto simp: out_extends_def call_status_def split: option.splits)

lemma call_progress_out:
  "(\<And>f c t. pcb = Some f \<Longrightarrow> P (f c t)) \<Longrightarrow> out_extends P w (call_progress pcb c t w)"
  by (auto simp: out_extends_def call_progress_def split: option.splits)

lemma stream_read_shrinks:
  "fst (stream_read cs s) \<noteq> [] \<Longrightarrow> length (snd (stream_read cs s)) < length s"
  by (auto simp: stream_read_def split: if_splits)

lemma write_loop_out:
  assumes pcb: "\<And>f c t. pcb = Some f \<Longrightarrow> P (f c t)"
  shows "out_extends P w (snd (write_loop cs source dst bw t pcb w))"
proof (induction "length source" arbitrary: source dst bw w rule: less_induct)
  case less
  show ?case
  proof (cases "fst (stream_read cs source) = []")
    case True
    then show ?thesis by (subst write_loop.simps) simp
  next
    case False
    let ?chunk = "fst (stream_read cs source)"
    obtain r d where dw: "dest_write dst ?chunk (devs w) = (r, d)"
      by (cases "dest_write dst ?chunk (devs w)")
    show ?thesis
    proof (cases r)
      case (Inl e)
      show ?thesis
        by (subst write_loop.simps) (simp add: False dw Inl out_extends_same)
    next
      case (Inr dst')
      let ?w1 = "call_progress pcb (bw + length ?chunk) t (w\<lparr>devs := d\<rparr>)"
      have a: "out_extends P w (w\<lparr>devs := d\<rparr>)" by (simp add: out_extends_same)
      have b: "out_extends P (w\<lparr>devs := d\<rparr>) ?w1" using pcb by (rule call_progress_out)
      have c: "out_extends P ?w1
                 (snd (write_loop cs (snd (stream_read cs source)) dst' (bw + length ?chunk) t pcb ?w1))"
        by (rule less(1)[OF stream_read_shrinks[OF False]])
      have "write_loop cs source dst bw t pcb w
              = write_loop cs (snd (stream_read cs source)) dst' (bw + length ?chunk) t pcb ?w1"
        by (subst write_loop.simps) (simp add: False dw Inr)
      with out_extends_trans[OF out_extends_trans[OF a b] c] show ?thesis by simp
    qed
  qed
qed

lemma verify_loop_out:
  assumes pcb: "\<And>f c t. pcb = Some f \<Longrightarrow> P (f c t)"
  shows "out_extends P w (snd (verify_loop cs source fd pos bc t pcb w))"
proof (induction "length source" arbitrary: source pos bc w rule: less_induct)
  case less
  show ?case
  proof (cases "fst (stream_read cs source) = []")
    case True
    then show ?thesis by (subst verify_loop.simps) simp
  next
    case False
    let ?chunk = "fst (stream_read cs source)"
    obtain dc d where dr: "fd_read fd pos (length ?chunk) (devs w) = (dc, d)"
      by (cases "fd_read fd pos (length ?chunk) (devs w)")
    show ?thesis
    proof (cases "?chunk \<noteq> dc")
      case True
      show ?thesis
        by (subst verify_loop.simps) (simp add: False dr True out_extends_same)
    next
      case eq: False
      let ?w1 = "call_progress pcb (bc + length ?chunk) t (w\<lparr>devs := d\<rparr>)"
      have a: "out_extends P w (w\<lparr>devs := d\<rparr>)" by (simp add: out_extends_same)
      have b: "out_extends P (w\<lparr>devs := d\<rparr>) ?w1" using pcb by (rule call_progress_out)
      have c: "out_extends P ?w1
                 (snd (verify_loop cs (snd (stream_read cs source)) fd (pos + length dc)
                         (bc + length ?chunk) t pcb ?w1))"
        by (rule less(1)[OF stream_read_shrinks[OF False]])
      have "verify_loop cs source fd pos bc t pcb w
              = verify_loop cs (snd (stream_read cs source)) fd (pos + length dc)
                  (bc + length ?chunk) t pcb ?w1"
      proof -
        from eq have dceq: "dc = ?chunk" by simp
        show ?thesis by (subst verify_loop.simps) (simp add: False dr dceq)
      qed
      with out_extends_trans[OF out_extends_trans[OF a b] c] show ?thesis by simp
    qed
  qed
qed

lemma out_case_status:
  assumes "out_extends P w0 (snd x)" and "\<And>f m. scb = Some f \<Longrightarrow> P (f m)"
  shows "out_extends P w0
           (snd (case x of (Inl exc, w2) \<Rightarrow> (Inl exc, w2)
                 | (Inr n, w2) \<Rightarrow> (g n, call_status scb msg w2)))"
proof (cases x)
  case (Pair r w2)
  show ?thesis
  proof (cases r)
    case (Inl e)
    with assms(1) Pair show ?thesis by simp
  next
    case (Inr n)
    from assms(1) Pair have "out_extends P w0 w2" by simp
    from out_extends_trans[OF this call_status_out[of scb P w2 msg]] assms(2)
    show ?thesis by (simp add: Pair Inr)
  qed
qed

lemma stream_out:
  assumes pcb: "\<And>f c t. pcb = Some f \<Longrightarrow> P (f c t)"
    and scb: "\<And>f m. scb = Some f \<Longrightarrow> P (f m)"
  shows "out_extends P w (snd (stream_image_to_device src p cs pcb scb dry w))"
proof (cases "0 < cs")
  case False
  then show ?thesis by (simp add: stream_image_to_device_def)
next
  case pos: True
  let ?w0 = "call_status scb ''Starting write'' w"
  obtain r s where o: "open_stream src (img w) = (r, s)" by (cases "open_stream src (img w)")
  then have o': "open_stream src (img ?w0) = (r, s)" by simp
  let ?w1 = "?w0\<lparr>img := s, calls := calls w @ [Call_open_stream]\<rparr>"
  have "out_extends P w ?w0" using scb by (rule call_status_out)
  moreover have "out_extends P ?w0 ?w1" by (simp add: out_extends_same)
  ultimately have a: "out_extends P w ?w1" by (rule out_extends_trans)
  show ?thesis
  proof (cases r)
    case (Inl exc)
    have "snd (stream_image_to_device src p cs pcb scb dry w) = ?w1"
      using pos by (simp add: stream_image_to_device_def call_open_stream_eq[OF o'] Inl
            split: pyexn.splits)
    with a show ?thesis by simp
  next
    case (Inr st)
    with o have o2: "open_stream src (img w) = (Inr st, s)" by simp
    show ?thesis
    proof (cases dry)
      case True
      have "out_extends P ?w1 (snd (write_loop cs (content st) (BytesIO []) 0 (size_opt src) pcb ?w1))"
        using pcb by (rule write_loop_out)
      with a have c: "out_extends P w
          (snd (write_loop cs (content st) (BytesIO []) 0 (size_opt src) pcb ?w1))"
        by (rule out_extends_trans)
      have "out_extends P w
          (snd (case write_loop cs (content st) (BytesIO []) 0 (size_opt src) pcb ?w1 of
                  (Inl exc, w2) \<Rightarrow> (Inl exc, w2)
                | (Inr n, w2) \<Rightarrow> (Inr n, call_status scb ''Write completed'' w2)))"
        by (rule out_case_status[where scb=scb, OF c]) (rule scb)
      then show ?thesis by (simp add: True dry_run_unfold[OF pos o2])
    next
      case False
      obtain ro d where oo: "os_open p O_RDWR_SYNC (devs w) = (ro, d)"
        by (cases "os_open p O_RDWR_SYNC (devs w)")
      show ?thesis
      proof (cases ro)
        case (Inl e)
        have "snd (stream_image_to_device src p cs pcb scb dry w) = ?w1\<lparr>devs := d\<rparr>"
          by (simp add: False real_run_unfold[OF pos o2] oo Inl)
        moreover have "out_extends P w (?w1\<lparr>devs := d\<rparr>)"
          by (rule out_extends_trans[OF a]) (simp add: out_extends_same)
        ultimately show ?thesis by simp
      next
        case (Inr fd)
        have b: "out_extends P w (?w1\<lparr>devs := d\<rparr>)"
          by (rule out_extends_trans[OF a]) (simp add: out_extends_same)
        have "out_extends P (?w1\<lparr>devs := d\<rparr>)
                (snd (write_loop cs (content st) (DeviceFile fd 0) 0 (size_opt src) pcb
                        (?w1\<lparr>devs := d\<rparr>)))"
          using pcb by (rule write_loop_out)
        with b have c: "out_extends P w
                (snd (write_loop cs (content st) (DeviceFile fd 0) 0 (size_opt src) pcb
                        (?w1\<lparr>devs := d\<rparr>)))"
          by (rule out_extends_trans)
        have "out_extends P w
                (snd (case write_loop cs (content st) (DeviceFile fd 0) 0 (size_opt src) pcb
                             (?w1\<lparr>devs := d\<rparr>) of
                        (Inl exc, w2) \<Rightarrow> (Inl exc, w2)
                      | (Inr n, w2) \<Rightarrow> (Inr n, call_status scb ''Write completed'' w2)))"
          by (rule out_case_status[where scb=scb, OF c]) (rule scb)
        then show ?thesis by (simp add: False real_run_unfold[OF pos o2] oo Inr)
      qed
    qed
  qed
qed

lemma verify_out:
  assumes pcb: "\<And>f c t. pcb = Some f \<Longrightarrow> P (f c t)"
    and scb: "\<And>f m. scb = Some f \<Longrightarrow> P (f m)"
  shows "out_extends P w (snd (verify_device_contents src p cs pcb scb w))"
proof -
  let ?w0 = "call_status scb ''Starting verification'' w"
  obtain r s where o: "open_stream src (img w) = (r, s)" by (cases "open_stream src (img w)")
  then have o': "open_stream src (img ?w0) = (r, s)" by simp
  let ?w1 = "?w0\<lparr>img := s, calls := calls w @ [Call_open_stream]\<rparr>"
  have "out_extends P w ?w0" using scb by (rule call_status_out)
  moreover have "out_extends P ?w0 ?w1" by (simp add: out_extends_same)
  ultimately have a: "out_extends P w ?w1" by (rule out_extends_trans)
  show ?thesis
  proof (cases r)
    case (Inl exc)
    have "snd (verify_device_contents src p cs pcb scb w) = ?w1"
      by (simp add: verify_device_contents_def call_open_stream_eq[OF o'] Inl split: pyexn.splits)
    with a show ?thesis by simp
  next
    case (Inr st)
    obtain ro d where oo: "os_open p O_RDONLY (devs w) = (ro, d)"
      by (cases "os_open p O_RDONLY (devs w)")
    have b: "out_extends P w (?w1\<lparr>devs := d\<rparr>)"
      by (rule out_extends_trans[OF a]) (simp add: out_extends_same)
    show ?thesis
    proof (cases ro)
      case (Inl e)
      have "snd (verify_device_contents src p cs pcb scb w) = ?w1\<lparr>devs := d\<rparr>"
        by (simp add: verify_device_contents_def call_open_stream_eq[OF o'] Inr oo Inl)
      with b show ?thesis by simp
    next
      case fd: (Inr fd)
      have "out_extends P (?w1\<lparr>devs := d\<rparr>)
              (snd (verify_loop cs (content st) fd 0 0 (size_opt src) pcb (?w1\<lparr>devs := d\<rparr>)))"
        using pcb by (rule verify_loop_out)
      with b have c: "out_extends P w
              (snd (verify_loop cs (content st) fd 0 0 (size_opt src) pcb (?w1\<lparr>devs := d\<rparr>)))"
        by (rule out_extends_trans)
      have "out_extends P w
              (snd (case verify_loop cs (content st) fd 0 0 (size_opt src) pcb
                           (?w1\<lparr>devs := d\<rparr>) of
                      (Inl exc, w2) \<Rightarrow> (Inl exc, w2)
                    | (Inr u, w2) \<Rightarrow> (Inr (), call_status scb ''Verification completed'' w2)))"
        by (rule out_case_status[where scb=scb and g="\<lambda>u. Inr ()", OF c]) (rule scb)
      then show ?thesis
        by (simp add: verify_device_contents_def call_open_stream_eq[OF o'] Inr oo fd)
    qed
  qed
qed

lemma flash_try_out:
  assumes pcb: "\<And>f c t. pcb = Some f \<Longrightarrow> P (f c t)"
    and vpcb: "\<And>f c t. vpcb = Some f \<Longrightarrow> P (f c t)"
    and scb: "\<And>f m. scb = Some f \<Longrightarrow> P (f m)"
  shows "out_extends P w (snd (flash_try src p v cs pcb vpcb scb dry w))"
proof -
  obtain r w1 where s: "stream_image_to_device src p cs pcb scb dry w = (r, w1)"
    by (cases "stream_image_to_device src p cs pcb scb dry w")
  have "out_extends P w (snd (stream_image_to_device src p cs pcb scb dry w))"
    by (rule stream_out[where pcb=pcb and scb=scb]) (rule pcb scb, assumption)+
  with s have a: "out_extends P w w1" by simp
  show ?thesis
  proof (cases r)
    case (Inl exc)
    with a show ?thesis by (simp add: flash_try_def s)
  next
    case (Inr written)
    let ?vp = "case vpcb of Some f \<Rightarrow> Some f | None \<Rightarrow> pcb"
    have vp: "\<And>f c t. ?vp = Some f \<Longrightarrow> P (f c t)"
      using pcb vpcb by (auto split: option.splits)
    obtain r2 w2 where vr: "verify_device_contents src p cs ?vp scb w1 = (r2, w2)"
      by (cases "verify_device_contents src p cs ?vp scb w1")
    have "out_extends P w1 (snd (verify_device_contents src p cs ?vp scb w1))"
      by (rule verify_out[where pcb="?vp" and scb=scb]) (rule vp scb, assumption)+
    with vr have "out_extends P w1 w2" by simp
    with a have b: "out_extends P w w2" by (rule out_extends_trans)
    show ?thesis
      using a b by (cases r2) (simp_all add: flash_try_def s Inr vr)
  qed
qed

lemma flash_source_out:
  assumes pcb: "\<And>f c t. pcb = Some f \<Longrightarrow> P (f c t)"
    and vpcb: "\<And>f c t. vpcb = Some f \<Longrightarrow> P (f c t)"
    and scb: "\<And>f m. scb = Some f \<Longrightarrow> P (f m)"
  shows "out_extends P w (snd (flash_source src p v cs pcb vpcb scb dry w))"
proof -
  obtain r w1 where t: "flash_try src p v cs pcb vpcb scb dry w = (r, w1)"
    by (cases "flash_try src p v cs pcb vpcb scb dry w")
  have "out_extends P w (snd (flash_try src p v cs pcb vpcb scb dry w))"
    by (rule flash_try_out[where pcb=pcb and vpcb=vpcb and scb=scb])
       (rule pcb vpcb scb, assumption)+
  with t have a: "out_extends P w w1" by simp
  have "out (snd (flash_source src p v cs pcb vpcb scb dry w)) = out w1"
    by (simp add: flash_source_def flash_finally_def t split: prod.splits option.splits)
  then have "out_extends P w1 (snd (flash_source src p v cs pcb vpcb scb dry w))"
    by (rule out_extends_same)
  with a show ?thesis by (rule out_extends_trans)
qed

lemma flash_image_out:
  assumes pcb: "\<And>f c t. pcb = Some f \<Longrightarrow> P (f c t)"
    and vpcb: "\<And>f c t. vpcb = Some f \<Longrightarrow> P (f c t)"
    and scb: "\<And>f m. scb = Some f \<Longrightarrow> P (f m)"
  shows "out_extends P w (snd (flash_image lib ip p v cs pcb vpcb scb dry w))"
proof -
  obtain r s where pr: "prepare_image_source lib ip (img w) = (r, s)"
    by (cases "prepare_image_source lib ip (img w)")
  show ?thesis
  proof (cases r)
    case (Inl exc)
    then show ?thesis by (simp add: flash_image_def pr out_extends_same)
  next
    case (Inr src)
    have "out_extends P (w\<lparr>img := s\<rparr>)
            (snd (flash_source src p v cs pcb vpcb scb dry (w\<lparr>img := s\<rparr>)))"
      by (rule flash_source_out[where pcb=pcb and vpcb=vpcb and scb=scb])
         (rule pcb vpcb scb, assumption)+
    moreover have "out_extends P w (w\<lparr>img := s\<rparr>)" by (simp add: out_extends_same)
    ultimately have "out_extends P w
            (snd (flash_source src p v cs pcb vpcb scb dry (w\<lparr>img := s\<rparr>)))"
      by (rule out_extends_trans[rotated])
    then show ?thesis by (simp add: flash_image_def pr Inr)
  qed
qed

lemma one_terminal_prefix:
  "list_all (\<lambda>e. \<not> is_terminal e) pfx \<Longrightarrow> one_terminal dry (before @ pfx) after code \<Longrightarrow>
   one_terminal dry before after code"
proof -
  assume pf: "list_all (\<lambda>e. \<not> is_terminal e) pfx"
    and "one_terminal dry (before @ pfx) after code"
  then obtain pre final where
    h: "after = (before @ pfx) @ pre @ [final]" "list_all (\<lambda>e. \<not> is_terminal e) pre"
       "if code = 0 then \<exists>n. final = Done n dry else \<exists>m. final = Error m"
    unfolding one_terminal_def by blast
  from h(1) have "after = before @ (pfx @ pre) @ [final]" by simp
  moreover from pf h(2) have "list_all (\<lambda>e. \<not> is_terminal e) (pfx @ pre)" by simp
  ultimately show ?thesis unfolding one_terminal_def using h(3) by blast
qed

lemma out_emit [simp]: "out (flash_world (emit ev st)) = out (flash_world st) @ [ev]"
  by (simp add: emit_def)

lemma emit_fields [simp]:
  "sys_state (emit ev st) = sys_state st" "attempts (emit ev st) = attempts st"
  by (simp_all add: emit_def)

lemma out_emit_all [simp]: "out (flash_world (emit_all evs st)) = out (flash_world st) @ evs"
  by (induction evs arbitrary: st) simp_all

lemma worker_flash_code:
  "fst (worker_flash lib ip dp a st)
     = exit_code (flash_category (fst (flash_image lib ip dp (verify a) (chunk_size a)
             (Some (\<lambda>current total_bytes. Progress Write_phase current total_bytes))
             (Some (\<lambda>current total_bytes. Progress Verify_phase current total_bytes))
             (Some (\<lambda>message. Status message))
             (dry_run a) (flash_world st))))"
  by (auto simp: worker_flash_def split: prod.splits sum.splits pyexn.splits)

lemma worker_flash_terminal:
  "one_terminal (dry_run a) (out (flash_world st))
     (out (flash_world (snd (worker_flash lib ip dp a st)))) (fst (worker_flash lib ip dp a st))"
proof -
  let ?f = "flash_image lib ip dp (verify a) (chunk_size a)
             (Some (\<lambda>current total_bytes. Progress Write_phase current total_bytes))
             (Some (\<lambda>current total_bytes. Progress Verify_phase current total_bytes))
             (Some (\<lambda>message. Status message))
             (dry_run a) (flash_world st)"
  obtain r w where f: "?f = (r, w)" by (cases ?f)
  have "out_extends (\<lambda>e. \<not> is_terminal e) (flash_world st) (snd ?f)"
    by (rule flash_image_out) auto
  with f obtain evs where
    e: "out w = out (flash_world st) @ evs" "list_all (\<lambda>e. \<not> is_terminal e) evs"
    by (auto simp: out_extends_def)
  show ?thesis
  proof (cases r)
    case (Inr written)
    have "worker_flash lib ip dp a st = (0, emit (Done written (dry_run a)) (st\<lparr>flash_world := w\<rparr>))"
      by (simp add: worker_flash_def f Inr)
    with e show ?thesis by (auto simp: one_terminal_def)
  next
    case (Inl exc)
    then obtain m c where
      "worker_flash lib ip dp a st = (c, emit (Error m) (st\<lparr>flash_world := w\<rparr>))" "c \<noteq> 0"
      by (cases exc) (simp_all add: worker_flash_def f)
    with e show ?thesis by (auto simp: one_terminal_def)
  qed
qed

lemma one_terminal_flash_after:
  assumes "out (flash_world st1) = out (flash_world st) @ pfx"
    and "list_all (\<lambda>e. \<not> is_terminal e) pfx"
  shows "one_terminal (dry_run a) (out (flash_world st))
     (out (flash_world (snd (worker_flash lib ip dp a st1)))) (fst (worker_flash lib ip dp a st1))"
  using worker_flash_terminal[of a st1 lib ip dp] assms
  by (auto intro: one_terminal_prefix)

lemma worker_unmount_and_flash_terminal:
  "one_terminal (dry_run a) (out (flash_world st))
     (out (flash_world (snd (worker_unmount_and_flash lib sys pd ip dp a st))))
     (fst (worker_unmount_and_flash lib sys pd ip dp a st))"
proof (cases "find_device_by_path pd dp False")
  case None
  let ?st1 = "emit (Log (''Warning: could not refresh device info for '' @ dp)) st"
  have "one_terminal (dry_run a) (out (flash_world st))
     (out (flash_world (snd (worker_flash lib ip dp a ?st1)))) (fst (worker_flash lib ip dp a ?st1))"
    by (rule one_terminal_flash_after[where pfx="[Log (''Warning: could not refresh device info for '' @ dp)]"])
       simp_all
  then show ?thesis by (simp add: worker_unmount_and_flash_def None)
next
  case (Some d)
  show ?thesis
  proof (cases "mountpoints d \<noteq> [] \<and> \<not> dry_run a")
    case False
    have "one_terminal (dry_run a) (out (flash_world st))
       (out (flash_world (snd (worker_flash lib ip dp a st)))) (fst (worker_flash lib ip dp a st))"
      by (rule worker_flash_terminal)
    with False show ?thesis by (auto simp: worker_unmount_and_flash_def Some)
  next
    case True
    let ?st1 = "emit (Status (''Unmounting '' @ dp)) st"
    obtain r u log where um: "unmount_device sys d (sys_state st) (attempts st) = (r, u, log)"
      by (cases "unmount_device sys d (sys_state st) (attempts st)")
    show ?thesis
    proof (cases r)
      case (Inl exc)
      have "worker_unmount_and_flash lib sys pd ip dp a st
              = (10, emit (Error (str_exn exc)) (?st1\<lparr>sys_state := u, attempts := log\<rparr>))"
        using True by (simp add: worker_unmount_and_flash_def Some um Inl Let_def)
      moreover have "out (flash_world (emit (Error (str_exn exc))
                           (?st1\<lparr>sys_state := u, attempts := log\<rparr>)))
               = out (flash_world st) @ [Status (''Unmounting '' @ dp)] @ [Error (str_exn exc)]"
        by (simp add: emit_def)
      ultimately show ?thesis by (auto simp: one_terminal_def)
    next
      case (Inr unmounted)
      let ?st2 = "emit_all (map (\<lambda>mount. Log (''Unmounted '' @ mount)) unmounted)
                    (?st1\<lparr>sys_state := u, attempts := log\<rparr>)"
      have w: "worker_unmount_and_flash lib sys pd ip dp a st = worker_flash lib ip dp a ?st2"
        using True by (simp add: worker_unmount_and_flash_def Some um Inr Let_def)
      have o: "out (flash_world ?st2)
                 = out (flash_world st)
                   @ (Status (''Unmounting '' @ dp) # map (\<lambda>mount. Log (''Unmounted '' @ mount)) unmounted)"
        by (simp add: emit_def)
      have n: "list_all (\<lambda>e. \<not> is_terminal e)
                 (Status (''Unmounting '' @ dp) # map (\<lambda>mount. Log (''Unmounted '' @ mount)) unmounted)"
        by (simp add: list_all_iff)
      from one_terminal_flash_after[OF o n, of a lib ip dp]
      show ?thesis by (simp only: w)
    qed
  qed
qed

lemma run_worker_terminal:
  "one_terminal (dry_run a) (out (flash_world st))
     (out (flash_world (snd (run_worker lib sys pd a st)))) (fst (run_worker lib sys pd a st))"
proof -
  have m: "one_terminal (dry_run a) (out (flash_world st))
     (out (flash_world (emit (Error ''Worker missing required arguments'') st))) 64"
    by (auto simp: one_terminal_def)
  show ?thesis
    using m worker_unmount_and_flash_terminal[of a st lib sys pd]
    by (auto simp: run_worker_def split: option.splits)
qed

lemma worker_unmount_and_flash_code:
  "\<exists>cat. fst (worker_unmount_and_flash lib sys pd ip dp a st) = exit_code cat"
proof -
  have f: "\<exists>cat. fst (worker_flash lib ip dp a s) = exit_code cat" for s
    using worker_flash_code[of lib ip dp a s] by blast
  have u: "\<exists>cat. (10::int) = exit_code cat" by (rule exI[of _ Unmount_failure]) simp
  show ?thesis
    using f u
    by (auto simp: worker_unmount_and_flash_def Let_def split: option.splits prod.splits sum.splits)
qed

lemma run_worker_code: "\<exists>cat. fst (run_worker lib sys pd a st) = exit_code cat"
proof -
  have m: "\<exists>cat. (64::int) = exit_code cat" by (rule exI[of _ Missing_arguments]) simp
  show ?thesis
    using m worker_unmount_and_flash_code[of lib sys pd _ _ a st]
    by (auto simp: run_worker_def split: option.splits)
qed

lemma exit_code_inj: "inj exit_code"
proof (rule injI)
  fix x y
  assume "exit_code x = exit_code y"
  then show "x = y" by (cases x; cases y) simp_all
qed

lemma exit_code_zero: "(exit_code c = 0) = (c = Success)"
  by (cases c) simp_all

text \<open>
  C7: whatever its arguments and its environment, \<open>_run_worker\<close> adds to its output a run
  of \<open>progress\<close>, \<open>status\<close> and \<open>log\<close> events followed by exactly one terminal event, which is
  \<open>done\<close> with the dry-run flag when the exit code is 0 and \<open>error\<close> otherwise. The exit code
  is that of a category: missing arguments give 64, a failed unmount 10, and the flash gives
  0 when it returns, 2 for \<open>FlashError\<close>, 3 for \<open>VerificationError\<close>, 130 for
  \<open>KeyboardInterrupt\<close> and 99 for any other exception; the codes of different categories
  differ, and only success has code 0.
\<close>

theorem worker_one_terminal_event:
  "(\<exists>pre final.
      out (flash_world (snd (run_worker lib sys pd a st))) = out (flash_world st) @ pre @ [final] \<and>
      (\<forall>e \<in> set pre. \<not> is_terminal e) \<and>
      (if fst (run_worker lib sys pd a st) = 0 then \<exists>n. final = Done n (dry_run a)
       else \<exists>m. final = Error m)) \<and>
   (\<exists>cat. fst (run_worker lib sys pd a st) = exit_code cat) \<and>
   (image a = None \<or> image a = Some [] \<or> device a = None \<or> device a = Some [] \<longrightarrow>
      fst (run_worker lib sys pd a st) = exit_code Missing_arguments) \<and>
   (\<forall>ip dp. fst (worker_flash lib ip dp a st)
      = exit_code (flash_category (fst (flash_image lib ip dp (verify a) (chunk_size a)
             (Some (\<lambda>current total_bytes. Progress Write_phase current total_bytes))
             (Some (\<lambda>current total_bytes. Progress Verify_phase current total_bytes))
             (Some (\<lambda>message. Status message))
             (dry_run a) (flash_world st))))) \<and>
   (\<forall>ip dp d e u log.
      find_device_by_path pd dp False = Some d \<and> mountpoints d \<noteq> [] \<and> \<not> dry_run a \<and>
      unmount_device sys d (sys_state st) (attempts st) = (Inl e, u, log) \<longrightarrow>
      fst (worker_unmount_and_flash lib sys pd ip dp a st) = exit_code Unmount_failure) \<and>
   inj exit_code \<and> (\<forall>c. (exit_code c = 0) = (c = Success))"
proof (intro conjI allI impI)
  from run_worker_terminal[of a st lib sys pd]
  show "\<exists>pre final.
      out (flash_world (snd (run_worker lib sys pd a st))) = out (flash_world st) @ pre @ [final] \<and>
      (\<forall>e \<in> set pre. \<not> is_terminal e) \<and>
      (if fst (run_worker lib sys pd a st) = 0 then \<exists>n. final = Done n (dry_run a)
       else \<exists>m. final = Error m)"
    unfolding one_terminal_def list_all_iff by blast
next
  show "\<exists>cat. fst (run_worker lib sys pd a st) = exit_code cat" by (rule run_worker_code)
next
  assume "image a = None \<or> image a = Some [] \<or> device a = None \<or> device a = Some []"
  then show "fst (run_worker lib sys pd a st) = exit_code Missing_arguments"
    by (auto simp: run_worker_def split: option.splits)
next
  fix ip dp
  show "fst (worker_flash lib ip dp a st)
      = exit_code (flash_category (fst (flash_image lib ip dp (verify a) (chunk_size a)
             (Some (\<lambda>current total_bytes. Progress Write_phase current total_bytes))
             (Some (\<lambda>current total_bytes. Progress Verify_phase current total_bytes))
             (Some (\<lambda>message. Status message))
             (dry_run a) (flash_world st))))"
    by (rule worker_flash_code)
next
  fix ip dp d e u log
  assume "find_device_by_path pd dp False = Some d \<and> mountpoints d \<noteq> [] \<and> \<not> dry_run a \<and>
      unmount_device sys d (sys_state st) (attempts st) = (Inl e, u, log)"
  then show "fst (worker_unmount_and_flash lib sys pd ip dp a st) = exit_code Unmount_failure"
    by (simp add: worker_unmount_and_flash_def Let_def)
next
  show "inj exit_code" by (rule exit_code_inj)
next
  fix c
  show "(exit_code c = 0) = (c = Success)" by (rule exit_code_zero)
qed

lemma worker_example:
  "run_worker example_library (busy_system ''/mnt/none'') (Inr [usb_stick [''/mnt/a'']])
       example_args example_worker_state
     = (0,
        \<lparr>sys_state = (), attempts = [(''/mnt/a'', [''umount'', ''/mnt/a''], True)],
         flash_world =
           \<lparr>img = \<lparr>entries = [''/home/u/disk.ZIP'' \<mapsto> Regular [80, 75]], temps = [None],
                   extractions = [InTemp 0 ''disk.img'']\<rparr>,
            devs = \<lparr>nodes = [''/dev/sdb'' \<mapsto> Dev [1, 2, 3, 0]],
                    open_log = [(''/dev/sdb'', O_RDWR_SYNC), (''/dev/sdb'', O_RDONLY)],
                    read_log = [(''/dev/sdb'', 0, 2), (''/dev/sdb'', 2, 1)]\<rparr>,
            out = [Status ''Unmounting /dev/sdb'', Log ''Unmounted /mnt/a'',
                   Status ''Starting write'',
                   Progress Write_phase 2 (Some 3), Progress Write_phase 3 (Some 3),
                   Status ''Write completed'', Status ''Starting verification'',
                   Progress Verify_phase 2 (Some 3), Progress Verify_phase 3 (Some 3),
                   Status ''Verification completed'', Done 3 False],
            calls = [Call_open_stream, Call_open_stream, Call_cleanup]\<rparr>\<rparr>)"
  by (simp add: run_worker_def worker_unmount_and_flash_def worker_flash_def emit_def
        example_args_def example_worker_state_def find_device_by_path_def list_block_devices_def
        usb_stick_def busy_system_def unmount_device_def unmount_targets_def
        sorted_len_reverse_def set_iter_def unmount_target_def lookup_mount_source_def
        flash_image_def prepare_image_source_def example_library_def example_fs_def
        example_world_def image_zip_def lower_def lower_char_def mkdtemp_def
        flash_source_def flash_finally_def flash_try_def
        stream_image_to_device_def verify_device_contents_def call_open_stream_def
        call_status_def call_progress_def os_open_def
        write_loop.simps verify_loop.simps stream_read_def fd_read_def fd_write_def
        zip_make_stream_def ensure_extracted_def temp_dir_of_def zip_cleanup_def
        unlink_def rmdir_def Let_def)

lemma busy_unmount_example:
  "unmount_device (busy_system ''/mnt/a'') (usb_stick [''/mnt/a'']) () []
     = (Inl (UnmountError ''Failed to unmount: /mnt/a'' []), (),
        [(''/mnt/a'', [''umount'', ''/mnt/a''], False),
         (''/mnt/a'', [''umount'', ''-l'', ''/mnt/a''], False)])"
  by (simp add: unmount_device_def unmount_targets_def sorted_len_reverse_def set_iter_def
        usb_stick_def busy_system_def unmount_target_def lookup_mount_source_def)

theorem worker_one_terminal_event_witness:
  "fst (run_worker example_library (busy_system ''/mnt/none'') (Inr [usb_stick [''/mnt/a'']])
          example_args example_worker_state) = 0 \<and>
   out (flash_world (snd (run_worker example_library (busy_system ''/mnt/none'')
          (Inr [usb_stick [''/mnt/a'']]) example_args example_worker_state)))
     = [Status ''Unmounting /dev/sdb'', Log ''Unmounted /mnt/a'', Status ''Starting write'',
        Progress Write_phase 2 (Some 3), Progress Write_phase 3 (Some 3),
        Status ''Write completed'', Status ''Starting verification'',
        Progress Verify_phase 2 (Some 3), Progress Verify_phase 3 (Some 3),
        Status ''Verification completed''] @ [Done 3 False] \<and>
   image (example_args\<lparr>image := None\<rparr>) = None \<and>
   fst (run_worker example_library (busy_system ''/mnt/none'') (Inr [usb_stick [''/mnt/a'']])
          (example_args\<lparr>image := None\<rparr>) example_worker_state) = 64 \<and>
   find_device_by_path (Inr [usb_stick [''/mnt/a'']]) ''/dev/sdb'' False
     = Some (usb_stick [''/mnt/a'']) \<and>
   mountpoints (usb_stick [''/mnt/a'']) \<noteq> [] \<and> \<not> dry_run example_args \<and>
   unmount_device (busy_system ''/mnt/a'') (usb_stick [''/mnt/a''])
       (sys_state example_worker_state) (attempts example_worker_state)
     = (Inl (UnmountError ''Failed to unmount: /mnt/a'' []), (),
        [(''/mnt/a'', [''umount'', ''/mnt/a''], False),
         (''/mnt/a'', [''umount'', ''-l'', ''/mnt/a''], False)]) \<and>
   fst (worker_unmount_and_flash example_library (busy_system ''/mnt/a'')
          (Inr [usb_stick [''/mnt/a'']]) ''/home/u/disk.ZIP'' ''/dev/sdb''
          example_args example_worker_state) = 10"
proof -
  note t1 = worker_one_terminal_event [of example_library "busy_system ''/mnt/none''"
      "Inr [usb_stick [''/mnt/a'']]" "example_args\<lparr>image := None\<rparr>" example_worker_state]
  note t2 = worker_one_terminal_event [of example_library "busy_system ''/mnt/a''"
      "Inr [usb_stick [''/mnt/a'']]" example_args example_worker_state]
  have i: "image (example_args\<lparr>image := None\<rparr>) = None" by simp
  from t1 i have m: "fst (run_worker example_library (busy_system ''/mnt/none'')
          (Inr [usb_stick [''/mnt/a'']]) (example_args\<lparr>image := None\<rparr>) example_worker_state)
       = 64"
    by simp
  have f: "find_device_by_path (Inr [usb_stick [''/mnt/a'']]) ''/dev/sdb'' False
     = Some (usb_stick [''/mnt/a''])"
    by (simp add: find_device_by_path_def list_block_devices_def usb_stick_def)
  have p: "mountpoints (usb_stick [''/mnt/a'']) \<noteq> []" "\<not> dry_run example_args"
    by (simp_all add: usb_stick_def example_args_def)
  have u: "unmount_device (busy_system ''/mnt/a'') (usb_stick [''/mnt/a''])
       (sys_state example_worker_state) (attempts example_worker_state)
     = (Inl (UnmountError ''Failed to unmount: /mnt/a'' []), (),
        [(''/mnt/a'', [''umount'', ''/mnt/a''], False),
         (''/mnt/a'', [''umount'', ''-l'', ''/mnt/a''], False)])"
    by (simp add: example_worker_state_def busy_unmount_example)
  from t2 have "\<forall>ip dp d e u log.
      find_device_by_path (Inr [usb_stick [''/mnt/a'']]) dp False = Some d \<and>
      mountpoints d \<noteq> [] \<and> \<not> dry_run example_args \<and>
      unmount_device (busy_system ''/mnt/a'') d (sys_state example_worker_state)
          (attempts example_worker_state) = (Inl e, u, log) \<longrightarrow>
      fst (worker_unmount_and_flash example_library (busy_system ''/mnt/a'')
             (Inr [usb_stick [''/mnt/a'']]) ip dp example_args example_worker_state)
        = exit_code Unmount_failure"
    by blast
  with f p u have c: "fst (worker_unmount_and_flash example_library (busy_system ''/mnt/a'')
          (Inr [usb_stick [''/mnt/a'']]) ''/home/u/disk.ZIP'' ''/dev/sdb''
          example_args example_worker_state) = exit_code Unmount_failure"
    by blast
  have e: "fst (run_worker example_library (busy_system ''/mnt/none'') (Inr [usb_stick [''/mnt/a'']])
          example_args example_worker_state) = 0"
    "out (flash_world (snd (run_worker example_library (busy_system ''/mnt/none'')
          (Inr [usb_stick [''/mnt/a'']]) example_args example_worker_state)))
     = [Status ''Unmounting /dev/sdb'', Log ''Unmounted /mnt/a'', Status ''Starting write'',
        Progress Write_phase 2 (Some 3), Progress Write_phase 3 (Some 3),
        Status ''Write completed'', Status ''Starting verification'',
        Progress Verify_phase 2 (Some 3), Progress Verify_phase 3 (Some 3),
        Status ''Verification completed''] @ [Done 3 False]"
    by (simp_all add: worker_example)
  from c have c': "fst (worker_unmount_and_flash example_library (busy_system ''/mnt/a'')
          (Inr [usb_stick [''/mnt/a'']]) ''/home/u/disk.ZIP'' ''/dev/sdb''
          example_args example_worker_state) = 10"
    by simp
  from e i m f p u c' show ?thesis by (intro conjI)
qed

end
